theory Spec2Isabelle
  imports Main "HOL-Library.AList" "HOL-Library.Char_ord" "HOL-Library.List_Lexorder"
begin

section \<open>Data model of package create\<close>

text \<open>
  A Go map with string keys is an association list with pairwise distinct keys. The order
  of the list is the order in which a \<^verbatim>\<open>range\<close> loop visits the entries, which Go leaves
  unspecified, so no result may depend on it. Strings are byte strings, compared byte by
  byte as \<^verbatim>\<open>sort.Strings\<close> does (the lexicographic order on \<^typ>\<open>char list\<close>).
\<close>

type_synonym 'v gomap = "(string \<times> 'v) list"

definition wf_gomap :: "'v gomap \<Rightarrow> bool" where
  "wf_gomap m = distinct (map fst m)"

definition key_set :: "'v gomap \<Rightarrow> string set" where
  "key_set m = set (map fst m)"

text \<open>A Go \<^verbatim>\<open>error\<close> is the message it prints; \<^verbatim>\<open>nil\<close> is \<^const>\<open>None\<close>.\<close>

type_synonym error = "string option"

datatype GroupVersionKind = GroupVersionKind (Group: string) (Version: string) (Kind: string)

datatype GroupVersionResource =
  GroupVersionResource (ResGroup: string) (ResVersion: string) (Resource: string)

text \<open>
  \<^verbatim>\<open>unstructured.Unstructured\<close>: of a manifest the code reads its group, version and
  kind and its namespace; the rest of the document is carried along.
\<close>

record Unstructured =
  ObjectKind :: GroupVersionKind
  Name :: string
  Namespace :: string
  Content :: string

datatype RESTScopeName = RESTScopeNameRoot | RESTScopeNameNamespace

record RESTMapping =
  MappingResource :: GroupVersionResource
  Scope :: RESTScopeName

text \<open>
  \<^verbatim>\<open>meta.RESTMapper\<close>, built once from a discovery snapshot and never changed afterwards:
  \<^verbatim>\<open>RESTMapping(gk, version)\<close> answers with a mapping or with an error.
\<close>

type_synonym RESTMapping_fn = "string \<times> string \<Rightarrow> string \<Rightarrow> string + RESTMapping"

text \<open>A variable of the interface type holds a mapper or \<^verbatim>\<open>nil\<close>.\<close>

type_synonym RESTMapper = "RESTMapping_fn option"

text \<open>
  The errors of the resource client. \<^verbatim>\<open>kerrors.IsAlreadyExists\<close> looks at the reason of
  an API status error; any other error, and \<^verbatim>\<open>nil\<close>, is not "already exists".
\<close>

datatype StatusReason =
    StatusReasonUnknown
  | StatusReasonAlreadyExists
  | StatusReasonNotFound
  | StatusReasonForbidden
  | StatusReasonInvalid
  | StatusReasonConflict

datatype api_error = StatusError StatusReason string | OtherError string

fun Error :: "api_error \<Rightarrow> string" where
  "Error (StatusError r msg) = msg"
| "Error (OtherError msg) = msg"

fun IsAlreadyExists :: "api_error option \<Rightarrow> bool" where
  "IsAlreadyExists None = False"
| "IsAlreadyExists (Some (StatusError r msg)) = (r = StatusReasonAlreadyExists)"
| "IsAlreadyExists (Some (OtherError msg)) = False"

text \<open>
  The dynamic client talks to the platform, whose state \<^typ>\<open>'w\<close> is threaded through
  every request: \<^verbatim>\<open>client.Resource(r).Create(obj)\<close> is the request without a namespace,
  \<^verbatim>\<open>client.Resource(r).Namespace(ns).Create(obj)\<close> the one with \<^term>\<open>Some ns\<close>.
\<close>

type_synonym 'w client =
  "'w \<Rightarrow> GroupVersionResource \<Rightarrow> string option \<Rightarrow> Unstructured \<Rightarrow> api_error option \<times> 'w"

text \<open>
  The calls the apply step makes to its collaborators, in the order they are made, each
  with the manifest path it is made for and its answer. The log is written and never read
  by the code below.
\<close>

datatype call =
    RESTMappingCall string "string + RESTMapping"
  | CreateCall string "string option" "api_error option"

fun call_path :: "call \<Rightarrow> string" where
  "call_path (RESTMappingCall p r) = p"
| "call_path (CreateCall p ns e) = p"

definition calls_for :: "string \<Rightarrow> call list \<Rightarrow> call list" where
  "calls_for p cs = filter (\<lambda>c. call_path c = p) cs"

text \<open>
  \<^verbatim>\<open>mapper.RESTMapping(gvk.GroupKind(), gvk.Version)\<close> for the kind of a manifest, and the
  namespace of the create request: none for a root-scoped resource, the manifest's own
  otherwise.
\<close>

abbreviation resolve :: "RESTMapping_fn \<Rightarrow> Unstructured \<Rightarrow> string + RESTMapping" where
  "resolve f obj \<equiv> f (Group (ObjectKind obj), Kind (ObjectKind obj)) (Version (ObjectKind obj))"

abbreviation request_namespace :: "RESTMapping \<Rightarrow> Unstructured \<Rightarrow> string option" where
  "request_namespace mappings obj \<equiv>
     (if Scope mappings = RESTScopeNameRoot then None else Some (Namespace obj))"

section \<open>Error aggregation\<close>

definition newline :: string where
  "newline = [CHR 0x0A]"

text \<open>\<^verbatim>\<open>strings.Join\<close>.\<close>

fun Join :: "string list \<Rightarrow> string \<Rightarrow> string" where
  "Join [] sep = []"
| "Join [x] sep = x"
| "Join (x # y # ys) sep = x @ sep @ Join (y # ys) sep"

text \<open>
  \<^verbatim>\<open>errors[k]\<close> printed with \<^verbatim>\<open>%v\<close>: a key that is absent reads as the nil error, which
  prints as \<^verbatim>\<open><nil>\<close>.
\<close>

definition errorAt :: "string gomap \<Rightarrow> string \<Rightarrow> string" where
  "errorAt errors k = (case map_of errors k of None \<Rightarrow> ''<nil>'' | Some e \<Rightarrow> e)"

text \<open>
  \<^verbatim>\<open>formatErrors\<close>. The argument \<open>q\<close> is the \<^verbatim>\<open>%q\<close> verb of \<^verbatim>\<open>fmt\<close>
  (\<^verbatim>\<open>strconv.Quote\<close>), which is not part of this package.
\<close>

definition formatErrors :: "(string \<Rightarrow> string) \<Rightarrow> string gomap \<Rightarrow> error" where
  "formatErrors q errors =
     (if length errors = 0 then None
      else
        let keys = sort (map fst errors);
            aggregatedErrMessages = map (\<lambda>k. q k @ '': '' @ errorAt errors k) keys
        in Some (''failed to create some manifests:'' @ newline
                 @ Join aggregatedErrMessages newline @ newline))"

section \<open>The apply step\<close>

record 'w create_state =
  manifests :: "Unstructured gomap"
  errs :: "string gomap"
  reloadDiscovery :: bool
  world :: 'w
  calls :: "call list"

text \<open>
  One iteration of the loop over \<^verbatim>\<open>sortedManifestPaths\<close>. \<^verbatim>\<open>manifests[path]\<close> of an
  absent key is the nil pointer, and reading its kind panics: the result \<^const>\<open>None\<close>.
  So does \<^verbatim>\<open>mapper.RESTMapping\<close> on a nil mapper.
\<close>

definition create_body ::
  "'w client \<Rightarrow> RESTMapper \<Rightarrow> string \<Rightarrow> 'w create_state \<Rightarrow> 'w create_state option" where
  "create_body client mapper path st =
     (case map_of (manifests st) path of
        None \<Rightarrow> None
      | Some obj \<Rightarrow>
        (case mapper of
           None \<Rightarrow> None
         | Some RESTMapping \<Rightarrow>
          let gvk = ObjectKind obj;
              res = RESTMapping (Group gvk, Kind gvk) (Version gvk);
              st1 = st\<lparr>calls := calls st @ [RESTMappingCall path res]\<rparr>
          in (case res of
                Inl err \<Rightarrow>
                  Some (st1\<lparr>errs := AList.update path (''unable to get REST mapping: '' @ err) (errs st1),
                            reloadDiscovery := True\<rparr>)
              | Inr mappings \<Rightarrow>
                  let ns = (if Scope mappings = RESTScopeNameRoot then None
                            else Some (Namespace obj));
                      (err, w) = client (world st1) (MappingResource mappings) ns obj;
                      st2 = st1\<lparr>world := w, calls := calls st1 @ [CreateCall path ns err]\<rparr>
                  in if IsAlreadyExists err
                     then Some (st2\<lparr>manifests := AList.delete path (manifests st2)\<rparr>)
                     else (case err of
                             Some e \<Rightarrow>
                               Some (st2\<lparr>errs := AList.update path (''failed to create: '' @ Error e) (errs st2)\<rparr>)
                           | None \<Rightarrow>
                               Some (st2\<lparr>manifests := AList.delete path (manifests st2)\<rparr>)))))"

fun create_loop ::
  "'w client \<Rightarrow> RESTMapper \<Rightarrow> string list \<Rightarrow> 'w create_state \<Rightarrow> 'w create_state option" where
  "create_loop client mapper [] st = Some st"
| "create_loop client mapper (path # paths) st =
     (case create_body client mapper path st of
        None \<Rightarrow> None
      | Some st' \<Rightarrow> create_loop client mapper paths st')"

text \<open>The state in which the loop of \<^verbatim>\<open>create\<close> ends.\<close>

definition create_run ::
  "Unstructured gomap \<Rightarrow> 'w client \<Rightarrow> RESTMapper \<Rightarrow> 'w \<Rightarrow> 'w create_state option" where
  "create_run ms client mapper w =
     (let sortedManifestPaths = sort (map fst ms)
      in create_loop client mapper sortedManifestPaths
           \<lparr>manifests = ms, errs = [], reloadDiscovery = False, world = w, calls = []\<rparr>)"

text \<open>
  \<^verbatim>\<open>create\<close> returns the aggregated error and the reload flag; the pending set it has
  mutated, the platform and the calls it made are returned with them.
\<close>

definition create ::
  "(string \<Rightarrow> string) \<Rightarrow> Unstructured gomap \<Rightarrow> 'w client \<Rightarrow> RESTMapper \<Rightarrow> 'w
     \<Rightarrow> (error \<times> bool \<times> Unstructured gomap \<times> 'w \<times> call list) option" where
  "create q ms client mapper w =
     (case create_run ms client mapper w of
        None \<Rightarrow> None
      | Some st \<Rightarrow>
          Some (formatErrors q (errs st), reloadDiscovery st, manifests st, world st, calls st))"

section \<open>Loading the manifests\<close>

text \<open>
  \<^verbatim>\<open>runtime.Decode\<close> with the unstructured JSON scheme yields a single object or a list
  of objects; only the former passes the type assertion of \<^verbatim>\<open>load\<close>.
\<close>

datatype RuntimeObject = UnstructuredObject Unstructured | UnstructuredListObject "Unstructured list"

record FileInfo =
  FileName :: string
  FileSize :: nat
  FileIsDir :: bool

type_synonym FileInfoPredicate = "FileInfo \<Rightarrow> bool"

record CreateOptions =
  Filters :: "FileInfoPredicate list"

record rest_Config =
  Host :: string
  BearerToken :: string

text \<open>
  A discovery client is what \<^verbatim>\<open>restmapper.GetAPIGroupResources\<close> does with it: it asks
  the platform for its group resources \<^typ>\<open>'gr\<close>, or fails.
\<close>

type_synonym ('w, 'gr) DiscoveryClient = "'w \<Rightarrow> (string + 'gr) \<times> 'w"

text \<open>
  The functions of other packages that \<^verbatim>\<open>EnsureManifestsCreated\<close> and \<^verbatim>\<open>load\<close> call:
  \<^verbatim>\<open>strconv.Quote\<close> behind the \<^verbatim>\<open>%q\<close> verb, the two client constructors,
  \<^verbatim>\<open>restmapper.NewDiscoveryRESTMapper\<close>, \<^verbatim>\<open>os.IsNotExist\<close> of the error of
  \<^verbatim>\<open>os.Stat\<close>, \<^verbatim>\<open>assets.LoadFilesRecursively\<close>, \<^verbatim>\<open>yaml.YAMLToJSON\<close> and
  \<^verbatim>\<open>runtime.Decode\<close>.
\<close>

record ('w, 'gr) env =
  Quote :: "string \<Rightarrow> string"
  NewForConfig :: "rest_Config \<Rightarrow> string + 'w client"
  NewDiscoveryClientForConfig :: "rest_Config \<Rightarrow> string + ('w, 'gr) DiscoveryClient"
  NewDiscoveryRESTMapper :: "'gr \<Rightarrow> RESTMapping_fn"
  StatIsNotExist :: "string \<Rightarrow> bool"
  LoadFilesRecursively :: "string \<Rightarrow> FileInfoPredicate list \<Rightarrow> string + string gomap"
  YAMLToJSON :: "string \<Rightarrow> string + string"
  Decode :: "string \<Rightarrow> string + RuntimeObject"

text \<open>
  The three steps that turn the bytes of one file into a manifest in the loop of
  \<^verbatim>\<open>load\<close>, with the error the loop records when a step fails.
\<close>

definition decodeManifest ::
  "('w, 'gr) env \<Rightarrow> string \<Rightarrow> string \<Rightarrow> string + Unstructured" where
  "decodeManifest e manifestPath manifestBytes =
     (case YAMLToJSON e manifestBytes of
        Inl err \<Rightarrow>
          Inl (''unable to convert asset '' @ Quote e manifestPath
               @ '' from YAML to JSON: '' @ err)
      | Inr manifestJSON \<Rightarrow>
          (case Decode e manifestJSON of
             Inl err \<Rightarrow>
               Inl (''unable to decode asset '' @ Quote e manifestPath @ '': '' @ err)
           | Inr (UnstructuredObject manifestUnstructured) \<Rightarrow> Inr manifestUnstructured
           | Inr (UnstructuredListObject items) \<Rightarrow>
               Inl (''unable to convert asset '' @ Quote e manifestPath @ '' to unstructed'')))"

text \<open>
  One iteration of the loop of \<^verbatim>\<open>load\<close> over \<^verbatim>\<open>manifestsBytesMap\<close>; \<open>loaded\<close> and
  \<open>failed\<close> are its maps \<^verbatim>\<open>manifests\<close> and \<^verbatim>\<open>errs\<close>.
\<close>

definition load_body ::
  "('w, 'gr) env \<Rightarrow> string \<times> string \<Rightarrow> Unstructured gomap \<times> string gomap
     \<Rightarrow> Unstructured gomap \<times> string gomap" where
  "load_body e entry acc =
     (case (entry, acc) of ((manifestPath, manifestBytes), (loaded, failed)) \<Rightarrow>
        (case decodeManifest e manifestPath manifestBytes of
           Inl err \<Rightarrow> (loaded, AList.update manifestPath err failed)
         | Inr manifestUnstructured \<Rightarrow>
             (AList.update manifestPath manifestUnstructured loaded, failed)))"

text \<open>\<^verbatim>\<open>load\<close>; the nil map it returns with an early error is the empty map.\<close>

definition load ::
  "('w, 'gr) env \<Rightarrow> string \<Rightarrow> CreateOptions \<Rightarrow> Unstructured gomap \<times> error" where
  "load e assetsDir options =
     (if StatIsNotExist e assetsDir
      then ([], Some (''directory '' @ Quote e assetsDir @ '' does not exists''))
      else
        (case LoadFilesRecursively e assetsDir (Filters options) of
           Inl err \<Rightarrow> ([], Some err)
         | Inr manifestsBytesMap \<Rightarrow>
             let acc = fold (load_body e) manifestsBytesMap ([], [])
             in (fst acc, formatErrors (Quote e) (snd acc))))"

section \<open>The retry driver\<close>

text \<open>
  What the driver does outside the process, in order: the calls of one round of the apply
  step, and a discovery request with the error it returned.
\<close>

datatype event = ApplyCalls "call list" | GetRESTMapperCall error

text \<open>
  The variables the polling closure captures, with the platform and the log of events.
\<close>

record 'w poll_state =
  cur_manifests :: "Unstructured gomap"
  cur_mapper :: RESTMapper
  lastCreateError :: error
  cur_world :: 'w
  log :: "event list"

definition getRESTMapper ::
  "('w, 'gr) env \<Rightarrow> ('w, 'gr) DiscoveryClient \<Rightarrow> 'w \<Rightarrow> (string + RESTMapping_fn) \<times> 'w" where
  "getRESTMapper e dc w =
     (case dc w of
        (Inl err, w') \<Rightarrow> (Inl err, w')
      | (Inr gr, w') \<Rightarrow> (Inr (NewDiscoveryRESTMapper e gr), w'))"

text \<open>
  The closure passed to \<^verbatim>\<open>wait.PollImmediateUntil\<close>: it returns \<^verbatim>\<open>(done, err)\<close> and the
  captured variables. After a refresh that succeeds, the closure's \<^verbatim>\<open>err\<close> holds the nil
  error of \<^verbatim>\<open>getRESTMapper\<close>, and that is what \<^verbatim>\<open>lastCreateError\<close> is set to.
\<close>

definition conditionFunc ::
  "('w, 'gr) env \<Rightarrow> 'w client \<Rightarrow> ('w, 'gr) DiscoveryClient \<Rightarrow> 'w poll_state
     \<Rightarrow> ((bool \<times> error) \<times> 'w poll_state) option" where
  "conditionFunc e client dc st =
     (case create (Quote e) (cur_manifests st) client (cur_mapper st) (cur_world st) of
        None \<Rightarrow> None
      | Some (err, refresh, ms, w, cs) \<Rightarrow>
          let st1 = st\<lparr>cur_manifests := ms, cur_world := w, log := log st @ [ApplyCalls cs]\<rparr>
          in (case err of
                None \<Rightarrow> Some ((True, None), st1\<lparr>lastCreateError := None\<rparr>)
              | Some createErr \<Rightarrow>
                  if refresh
                  then (case getRESTMapper e dc (cur_world st1) of
                          (Inl err', w') \<Rightarrow>
                            Some ((False, Some err'),
                                  st1\<lparr>cur_mapper := None, cur_world := w',
                                      log := log st1 @ [GetRESTMapperCall (Some err')]\<rparr>)
                        | (Inr m, w') \<Rightarrow>
                            Some ((False, None),
                                  st1\<lparr>cur_mapper := Some m, cur_world := w',
                                      log := log st1 @ [GetRESTMapperCall None],
                                      lastCreateError := None\<rparr>))
                  else Some ((False, None), st1\<lparr>lastCreateError := Some createErr\<rparr>)))"

definition ErrWaitTimeout :: string where
  "ErrWaitTimeout = ''timed out waiting for the condition''"

text \<open>
  Modelled from the spec: \<^verbatim>\<open>wait.PollImmediateUntil\<close> of the apimachinery library, which
  is not among the sources. The condition is evaluated immediately on entry and then once
  per polling interval, until it reports done or an error, or the stop channel is closed;
  an error of the condition ends the loop and is returned as it is, a closed channel gives
  the generic timeout error. Time is counted in evaluations: the first argument is the
  number of evaluations the stop channel leaves room for after the first one.
\<close>

fun PollImmediateUntil ::
  "nat \<Rightarrow> ('s \<Rightarrow> ((bool \<times> error) \<times> 's) option) \<Rightarrow> 's \<Rightarrow> (error \<times> 's) option" where
  "PollImmediateUntil n condition s =
     (case condition s of
        None \<Rightarrow> None
      | Some ((done, Some err), s') \<Rightarrow> Some (Some err, s')
      | Some ((done, None), s') \<Rightarrow>
          if done then Some (None, s')
          else (case n of
                  0 \<Rightarrow> Some (Some ErrWaitTimeout, s')
                | Suc k \<Rightarrow> PollImmediateUntil k condition s'))"

text \<open>
  \<^verbatim>\<open>EnsureManifestsCreated\<close>; \<open>ctx\<close> is the number of rounds after the first for
  which \<^verbatim>\<open>ctx.Done()\<close> stays open. The result is the error returned, the platform as the
  call leaves it and the log of events.
\<close>

definition EnsureManifestsCreated ::
  "('w, 'gr) env \<Rightarrow> nat \<Rightarrow> string \<Rightarrow> rest_Config \<Rightarrow> CreateOptions \<Rightarrow> 'w
     \<Rightarrow> (error \<times> 'w \<times> event list) option" where
  "EnsureManifestsCreated e ctx manifestDir restConfig options w =
     (case NewForConfig e restConfig of
        Inl err \<Rightarrow> Some (Some err, w, [])
      | Inr client \<Rightarrow>
     (case NewDiscoveryClientForConfig e restConfig of
        Inl err \<Rightarrow> Some (Some err, w, [])
      | Inr dc \<Rightarrow>
     (case load e manifestDir options of
        (loaded, Some err) \<Rightarrow> Some (Some err, w, [])
      | (loaded, None) \<Rightarrow>
     (case getRESTMapper e dc w of
        (Inl err, w1) \<Rightarrow> Some (Some err, w1, [GetRESTMapperCall (Some err)])
      | (Inr m, w1) \<Rightarrow>
     (case PollImmediateUntil ctx (conditionFunc e client dc)
             \<lparr>cur_manifests = loaded, cur_mapper = Some m, lastCreateError = None,
              cur_world = w1, log = [GetRESTMapperCall None]\<rparr> of
        None \<Rightarrow> None
      | Some (err, st) \<Rightarrow>
          (case lastCreateError st of
             Some lastErr \<Rightarrow> Some (Some lastErr, cur_world st, log st)
           | None \<Rightarrow> Some (err, cur_world st, log st)))))))"

text \<open>
  What holds of the captured variables whenever a round starts: the keys of the pending set
  are distinct, the mapper is not nil, no discovery request has failed so far, and an
  error is recorded only by a round in which every pending manifest had its kind resolved
  by the mapper still in use.
\<close>

definition poll_inv :: "'w poll_state \<Rightarrow> bool" where
  "poll_inv st \<longleftrightarrow>
     wf_gomap (cur_manifests st)
     \<and> (\<exists>f. cur_mapper st = Some f
            \<and> (lastCreateError st \<noteq> None \<longrightarrow>
                 (\<forall>p obj. map_of (cur_manifests st) p = Some obj \<longrightarrow> (\<exists>m. resolve f obj = Inr m))))
     \<and> (\<forall>err. GetRESTMapperCall (Some err) \<notin> set (log st))"

text \<open>
  A round whose calls hold a failed lookup is a round with the reload flag set. In a log
  of events, every such round is followed at once by a discovery request.
\<close>

definition signals_stale :: "call list \<Rightarrow> bool" where
  "signals_stale cs = (\<exists>p x. RESTMappingCall p (Inl x) \<in> set cs)"

definition rebuilds_follow :: "event list \<Rightarrow> bool" where
  "rebuilds_follow lg \<longleftrightarrow>
     (\<forall>i cs. i < length lg \<and> lg ! i = ApplyCalls cs \<and> signals_stale cs \<longrightarrow>
        Suc i < length lg \<and> (\<exists>d. lg ! Suc i = GetRESTMapperCall d))"

section \<open>A platform for the examples\<close>

text \<open>
  The examples below run the code on a platform in the manner of the fake dynamic client
  and the discovery resources of \<^verbatim>\<open>create_test.go\<close>. The platform is the list of the
  objects it holds, each known by resource, namespace and name. A create request for an
  object that is present is answered "already exists"; a document the platform rejects is
  answered "invalid"; any other object is stored.
\<close>

type_synonym fake_world = "(GroupVersionResource \<times> string option \<times> string) list"

definition fake_client :: "fake_world client" where
  "fake_client w r ns obj =
     (if (r, ns, Name obj) \<in> set w
      then (Some (StatusError StatusReasonAlreadyExists (Name obj @ '' already exists'')), w)
      else if Content obj = ''invalid''
      then (Some (StatusError StatusReasonInvalid (Name obj @ '' is invalid'')), w)
      else (None, w @ [(r, ns, Name obj)]))"

text \<open>
  Group resources as discovery lists them: kind, resource name and whether the resource is
  namespaced. The mapper built from them answers for the kinds listed and fails otherwise.
\<close>

type_synonym fake_gr = "(GroupVersionKind \<times> string \<times> bool) list"

definition fake_NewDiscoveryRESTMapper :: "fake_gr \<Rightarrow> RESTMapping_fn" where
  "fake_NewDiscoveryRESTMapper gr gk v =
     (case map_of gr (GroupVersionKind (fst gk) v (snd gk)) of
        None \<Rightarrow> Inl (''no matches for kind '' @ snd gk)
      | Some (r, namespaced) \<Rightarrow>
          Inr \<lparr>MappingResource = GroupVersionResource (fst gk) v r,
               Scope = (if namespaced then RESTScopeNameNamespace else RESTScopeNameRoot)\<rparr>)"

definition resourcesWithoutKubeAPIServer :: fake_gr where
  "resourcesWithoutKubeAPIServer =
     [(GroupVersionKind ''apiextensions.k8s.io'' ''v1beta1'' ''CustomResourceDefinition'',
         (''customresourcedefinitions'', False)),
      (GroupVersionKind [] ''v1'' ''Namespace'', (''namespaces'', False)),
      (GroupVersionKind [] ''v1'' ''ConfigMap'', (''configmaps'', True)),
      (GroupVersionKind [] ''v1'' ''Secret'', (''secrets'', True))]"

definition resources :: fake_gr where
  "resources =
     (GroupVersionKind ''kubeapiserver.operator.openshift.io'' ''v1alpha1''
        ''KubeAPIServerOperatorConfig'', (''kubeapiserveroperatorconfigs'', False))
     # resourcesWithoutKubeAPIServer"

definition testNamespace :: Unstructured where
  "testNamespace =
     \<lparr>ObjectKind = GroupVersionKind [] ''v1'' ''Namespace'',
      Name = ''openshift-kube-apiserver'', Namespace = [], Content = []\<rparr>"

definition testConfigMap :: Unstructured where
  "testConfigMap =
     \<lparr>ObjectKind = GroupVersionKind [] ''v1'' ''ConfigMap'',
      Name = ''aggregator-client-ca'', Namespace = ''openshift-kube-apiserver'', Content = []\<rparr>"

definition testOperatorConfig :: Unstructured where
  "testOperatorConfig =
     \<lparr>ObjectKind = GroupVersionKind ''kubeapiserver.operator.openshift.io'' ''v1alpha1''
                     ''KubeAPIServerOperatorConfig'',
      Name = ''instance'', Namespace = [], Content = []\<rparr>"

definition testSecret :: Unstructured where
  "testSecret =
     \<lparr>ObjectKind = GroupVersionKind [] ''v1'' ''Secret'',
      Name = ''serving-cert'', Namespace = ''openshift-kube-apiserver'', Content = ''invalid''\<rparr>"

text \<open>
  A pending set, in an order a \<^verbatim>\<open>range\<close> loop may visit it, and the platform on which the
  config map is present before the first round.
\<close>

definition testManifests :: "Unstructured gomap" where
  "testManifests =
     [(''02_config.yaml'', testOperatorConfig),
      (''01_cm.yaml'', testConfigMap),
      (''03_secret.yaml'', testSecret),
      (''00_ns.yaml'', testNamespace)]"

definition existingObjects :: fake_world where
  "existingObjects =
     [(GroupVersionResource [] ''v1'' ''configmaps'', Some ''openshift-kube-apiserver'',
       ''aggregator-client-ca'')]"

text \<open>The \<^verbatim>\<open>%q\<close> verb on a string none of whose characters needs an escape.\<close>

definition quote_plain :: "string \<Rightarrow> string" where
  "quote_plain s = [CHR 0x22] @ s @ [CHR 0x22]"

text \<open>
  What the first round on that platform returns, with a mapper that does not know the
  operator config: the aggregated error, the manifests still pending, the platform and the
  calls made.
\<close>

definition testMapper :: RESTMapping_fn where
  "testMapper = fake_NewDiscoveryRESTMapper resourcesWithoutKubeAPIServer"

definition testError :: string where
  "testError =
     ''failed to create some manifests:'' @ newline
     @ quote_plain ''02_config.yaml''
     @ '': unable to get REST mapping: no matches for kind KubeAPIServerOperatorConfig''
     @ newline
     @ quote_plain ''03_secret.yaml''
     @ '': failed to create: serving-cert is invalid'' @ newline"

definition testPending :: "Unstructured gomap" where
  "testPending = [(''02_config.yaml'', testOperatorConfig), (''03_secret.yaml'', testSecret)]"

definition testObjects :: fake_world where
  "testObjects =
     existingObjects
     @ [(GroupVersionResource [] ''v1'' ''namespaces'', None, ''openshift-kube-apiserver'')]"

definition testCalls :: "call list" where
  "testCalls =
     [RESTMappingCall ''00_ns.yaml''
        (Inr \<lparr>MappingResource = GroupVersionResource [] ''v1'' ''namespaces'',
                Scope = RESTScopeNameRoot\<rparr>),
      CreateCall ''00_ns.yaml'' None None,
      RESTMappingCall ''01_cm.yaml''
        (Inr \<lparr>MappingResource = GroupVersionResource [] ''v1'' ''configmaps'',
                Scope = RESTScopeNameNamespace\<rparr>),
      CreateCall ''01_cm.yaml'' (Some ''openshift-kube-apiserver'')
        (Some (StatusError StatusReasonAlreadyExists ''aggregator-client-ca already exists'')),
      RESTMappingCall ''02_config.yaml''
        (Inl ''no matches for kind KubeAPIServerOperatorConfig''),
      RESTMappingCall ''03_secret.yaml''
        (Inr \<lparr>MappingResource = GroupVersionResource [] ''v1'' ''secrets'',
                Scope = RESTScopeNameNamespace\<rparr>),
      CreateCall ''03_secret.yaml'' (Some ''openshift-kube-apiserver'')
        (Some (StatusError StatusReasonInvalid ''serving-cert is invalid''))]"

text \<open>The failure map of that round, in the order the entries were written.\<close>

definition testFailures :: "string gomap" where
  "testFailures =
     [(''02_config.yaml'',
       ''unable to get REST mapping: no matches for kind KubeAPIServerOperatorConfig''),
      (''03_secret.yaml'', ''failed to create: serving-cert is invalid'')]"

text \<open>
  A pending set that a mapper knowing all kinds applies in one round to the empty platform,
  the platform after that round, and the calls of that round and of a second one.
\<close>

definition fullMapper :: RESTMapping_fn where
  "fullMapper = fake_NewDiscoveryRESTMapper resources"

definition createdManifests :: "Unstructured gomap" where
  "createdManifests = [(''01_cm.yaml'', testConfigMap), (''00_ns.yaml'', testNamespace)]"

definition createdObjects :: fake_world where
  "createdObjects =
     [(GroupVersionResource [] ''v1'' ''namespaces'', None, ''openshift-kube-apiserver''),
      (GroupVersionResource [] ''v1'' ''configmaps'', Some ''openshift-kube-apiserver'',
       ''aggregator-client-ca'')]"

definition createdCalls :: "call list" where
  "createdCalls =
     [RESTMappingCall ''00_ns.yaml''
        (Inr \<lparr>MappingResource = GroupVersionResource [] ''v1'' ''namespaces'',
                Scope = RESTScopeNameRoot\<rparr>),
      CreateCall ''00_ns.yaml'' None None,
      RESTMappingCall ''01_cm.yaml''
        (Inr \<lparr>MappingResource = GroupVersionResource [] ''v1'' ''configmaps'',
                Scope = RESTScopeNameNamespace\<rparr>),
      CreateCall ''01_cm.yaml'' (Some ''openshift-kube-apiserver'') None]"

definition rerunCalls :: "call list" where
  "rerunCalls =
     [RESTMappingCall ''00_ns.yaml''
        (Inr \<lparr>MappingResource = GroupVersionResource [] ''v1'' ''namespaces'',
                Scope = RESTScopeNameRoot\<rparr>),
      CreateCall ''00_ns.yaml'' None
        (Some (StatusError StatusReasonAlreadyExists ''openshift-kube-apiserver already exists'')),
      RESTMappingCall ''01_cm.yaml''
        (Inr \<lparr>MappingResource = GroupVersionResource [] ''v1'' ''configmaps'',
                Scope = RESTScopeNameNamespace\<rparr>),
      CreateCall ''01_cm.yaml'' (Some ''openshift-kube-apiserver'')
        (Some (StatusError StatusReasonAlreadyExists ''aggregator-client-ca already exists''))]"

text \<open>
  An environment for \<^verbatim>\<open>EnsureManifestsCreated\<close>. Discovery lists the resources without
  the operator config, and fails as soon as the platform holds the namespace. Three
  directories exist: one whose only manifest is of a kind discovery never lists, one with
  a file that is not YAML beside a good one, and one with the namespace and the operator
  config. The bytes of a file name the object they decode to.
\<close>

definition testDiscovery :: "(fake_world, fake_gr) DiscoveryClient" where
  "testDiscovery w =
     (if (GroupVersionResource [] ''v1'' ''namespaces'', None, ''openshift-kube-apiserver'') \<in> set w
      then (Inl ''discovery: connection refused'', w)
      else (Inr resourcesWithoutKubeAPIServer, w))"

definition testFiles :: "string \<Rightarrow> string gomap" where
  "testFiles dir =
     (if dir = ''stale'' then [(''config.yaml'', ''operatorconfig'')]
      else if dir = ''broken'' then [(''00_ns.yaml'', ''namespace''), (''01_bad.yaml'', ''}{'')]
      else [(''01_config.yaml'', ''operatorconfig''), (''00_ns.yaml'', ''namespace'')])"

definition testDecode :: "string \<Rightarrow> string + RuntimeObject" where
  "testDecode b =
     (if b = ''namespace'' then Inr (UnstructuredObject testNamespace)
      else if b = ''configmap'' then Inr (UnstructuredObject testConfigMap)
      else if b = ''operatorconfig'' then Inr (UnstructuredObject testOperatorConfig)
      else Inl ''invalid character'')"

definition testEnv :: "(fake_world, fake_gr) env" where
  "testEnv =
     \<lparr>Quote = quote_plain,
      NewForConfig = (\<lambda>c. Inr fake_client),
      NewDiscoveryClientForConfig = (\<lambda>c. Inr testDiscovery),
      NewDiscoveryRESTMapper = fake_NewDiscoveryRESTMapper,
      StatIsNotExist = (\<lambda>dir. dir \<notin> {''stale'', ''broken'', ''testdata''}),
      LoadFilesRecursively = (\<lambda>dir filters. Inr (testFiles dir)),
      YAMLToJSON = (\<lambda>b. if b = ''}{'' then Inl ''yaml: did not find expected node content''
                         else Inr b),
      Decode = testDecode\<rparr>"

definition testConfig :: rest_Config where
  "testConfig = \<lparr>Host = ''https://localhost:6443'', BearerToken = []\<rparr>"

definition testOptions :: CreateOptions where
  "testOptions = \<lparr>Filters = []\<rparr>"

text \<open>The error \<^verbatim>\<open>load\<close> returns for the directory with the file that is not YAML.\<close>

definition brokenError :: string where
  "brokenError =
     ''failed to create some manifests:'' @ newline
     @ quote_plain ''01_bad.yaml'' @ '': unable to convert asset '' @ quote_plain ''01_bad.yaml''
     @ '' from YAML to JSON: yaml: did not find expected node content'' @ newline"

text \<open>
  The directory whose only manifest is of a kind discovery never lists: the state in which
  the first round starts, what a round returns, and the events of a call that is given
  time for two rounds.
\<close>

definition pollStart :: "Unstructured gomap \<Rightarrow> fake_world poll_state" where
  "pollStart ms =
     \<lparr>cur_manifests = ms, cur_mapper = Some testMapper, lastCreateError = None,
      cur_world = [], log = [GetRESTMapperCall None]\<rparr>"

definition staleManifests :: "Unstructured gomap" where
  "staleManifests = [(''config.yaml'', testOperatorConfig)]"

definition staleError :: string where
  "staleError =
     ''failed to create some manifests:'' @ newline
     @ quote_plain ''config.yaml''
     @ '': unable to get REST mapping: no matches for kind KubeAPIServerOperatorConfig''
     @ newline"

definition staleCalls :: "call list" where
  "staleCalls =
     [RESTMappingCall ''config.yaml'' (Inl ''no matches for kind KubeAPIServerOperatorConfig'')]"

definition staleLog :: "event list" where
  "staleLog =
     [GetRESTMapperCall None, ApplyCalls staleCalls, GetRESTMapperCall None,
      ApplyCalls staleCalls, GetRESTMapperCall None]"

text \<open>
  The directory with the namespace and the operator config: the first round creates the
  namespace, after which discovery fails.
\<close>

definition refusedManifests :: "Unstructured gomap" where
  "refusedManifests = [(''01_config.yaml'', testOperatorConfig), (''00_ns.yaml'', testNamespace)]"

definition refusedError :: string where
  "refusedError =
     ''failed to create some manifests:'' @ newline
     @ quote_plain ''01_config.yaml''
     @ '': unable to get REST mapping: no matches for kind KubeAPIServerOperatorConfig''
     @ newline"

definition namespaceObjects :: fake_world where
  "namespaceObjects =
     [(GroupVersionResource [] ''v1'' ''namespaces'', None, ''openshift-kube-apiserver'')]"

definition refusedCalls :: "call list" where
  "refusedCalls =
     [RESTMappingCall ''00_ns.yaml''
        (Inr \<lparr>MappingResource = GroupVersionResource [] ''v1'' ''namespaces'',
                Scope = RESTScopeNameRoot\<rparr>),
      CreateCall ''00_ns.yaml'' None None,
      RESTMappingCall ''01_config.yaml''
        (Inl ''no matches for kind KubeAPIServerOperatorConfig'')]"

definition refusedLog :: "event list" where
  "refusedLog =
     [GetRESTMapperCall None, ApplyCalls refusedCalls,
      GetRESTMapperCall (Some ''discovery: connection refused'')]"

text \<open>The variables of the closure when that discovery request has failed.\<close>

definition refusedEnd :: "fake_world poll_state" where
  "refusedEnd =
     (pollStart refusedManifests)
       \<lparr>cur_manifests := [(''01_config.yaml'', testOperatorConfig)],
        cur_mapper := None, cur_world := namespaceObjects,
        log := log (pollStart refusedManifests)
               @ [ApplyCalls refusedCalls,
                  GetRESTMapperCall (Some ''discovery: connection refused'')]\<rparr>"

section \<open>Properties of the apply step\<close>

subsection \<open>One iteration of the loop\<close>

text \<open>
  An iteration that does not panic ends in one of three ways: the kind is not resolved;
  the create request is answered with success or "already exists" and the manifest is
  deleted; the create request fails otherwise.
\<close>

lemma create_body_cases:
  assumes "create_body client mapper p st = Some st'"
  obtains
    (unresolved) f obj err where
      "mapper = Some f"
      "map_of (manifests st) p = Some obj"
      "resolve f obj = Inl err"
      "st' = st\<lparr>calls := calls st @ [RESTMappingCall p (Inl err)],
                errs := AList.update p (''unable to get REST mapping: '' @ err) (errs st),
                reloadDiscovery := True\<rparr>"
  | (removed) f obj mappings ns err w where
      "mapper = Some f"
      "map_of (manifests st) p = Some obj"
      "resolve f obj = Inr mappings"
      "ns = request_namespace mappings obj"
      "client (world st) (MappingResource mappings) ns obj = (err, w)"
      "err = None \<or> IsAlreadyExists err"
      "st' = st\<lparr>calls := calls st @ [RESTMappingCall p (Inr mappings), CreateCall p ns err],
                world := w,
                manifests := AList.delete p (manifests st)\<rparr>"
  | (failed) f obj mappings ns e w where
      "mapper = Some f"
      "map_of (manifests st) p = Some obj"
      "resolve f obj = Inr mappings"
      "ns = request_namespace mappings obj"
      "client (world st) (MappingResource mappings) ns obj = (Some e, w)"
      "\<not> IsAlreadyExists (Some e)"
      "st' = st\<lparr>calls := calls st @ [RESTMappingCall p (Inr mappings), CreateCall p ns (Some e)],
                world := w,
                errs := AList.update p (''failed to create: '' @ Error e) (errs st)\<rparr>"
  using assms
  unfolding create_body_def Let_def
  by (auto split: option.splits sum.splits prod.splits if_splits)

text \<open>
  An iteration touches nothing that belongs to another path.
\<close>

lemma create_body_frame:
  assumes "create_body client mapper p st = Some st'" and "p' \<noteq> p"
  shows "map_of (manifests st') p' = map_of (manifests st) p'
       \<and> map_of (errs st') p' = map_of (errs st) p'
       \<and> calls_for p' (calls st') = calls_for p' (calls st)"
  using assms(1)
proof (cases rule: create_body_cases)
  case (unresolved f obj err)
  show ?thesis unfolding unresolved(4) using assms(2)
    by (simp add: calls_for_def update_conv')
next
  case (removed f obj mappings ns err w)
  show ?thesis unfolding removed(7) using assms(2)
    by (simp add: calls_for_def delete_conv')
next
  case (failed f obj mappings ns e w)
  show ?thesis unfolding failed(7) using assms(2)
    by (simp add: calls_for_def update_conv')
qed

lemma create_body_subset:
  assumes "create_body client mapper p st = Some st'"
  shows "set (manifests st') \<subseteq> set (manifests st)
       \<and> length (manifests st') \<le> length (manifests st)
       \<and> (wf_gomap (manifests st) \<longrightarrow> wf_gomap (manifests st'))
       \<and> (wf_gomap (errs st) \<longrightarrow> wf_gomap (errs st'))
       \<and> (reloadDiscovery st \<longrightarrow> reloadDiscovery st')"
  using assms
proof (cases rule: create_body_cases)
  case (unresolved f obj err)
  show ?thesis unfolding unresolved(4)
    by (simp add: wf_gomap_def distinct_update)
next
  case (removed f obj mappings ns err w)
  have "set (AList.delete p (manifests st)) \<subseteq> set (manifests st)"
    by (auto simp: AList.delete_eq)
  then show ?thesis unfolding removed(7)
    by (simp add: wf_gomap_def distinct_delete length_delete_le)
next
  case (failed f obj mappings ns e w)
  show ?thesis unfolding failed(7)
    by (simp add: wf_gomap_def distinct_update)
qed

lemma create_body_total:
  assumes "p \<in> key_set (manifests st)"
  shows "\<exists>st'. create_body client (Some f) p st = Some st'"
proof -
  from assms have "map_of (manifests st) p \<noteq> None"
    by (simp add: key_set_def map_of_eq_None_iff)
  then obtain obj where "map_of (manifests st) p = Some obj" by blast
  then show ?thesis
    unfolding create_body_def Let_def
    by (auto split: option.splits sum.splits prod.splits if_splits)
qed

lemma create_body_world:
  assumes "create_body client mapper p st = Some st'"
    and "\<And>w r ns obj. w \<in> W \<Longrightarrow> snd (client w r ns obj) \<in> W"
    and "world st \<in> W"
  shows "world st' \<in> W"
  using assms(1)
proof (cases rule: create_body_cases)
  case (unresolved f obj err)
  then show ?thesis using assms(3) by simp
next
  case (removed f obj mappings ns err w)
  from assms(2)[OF assms(3), of "MappingResource mappings" ns obj] removed(5,7)
  show ?thesis by simp
next
  case (failed f obj mappings ns e w)
  from assms(2)[OF assms(3), of "MappingResource mappings" ns obj] failed(5,7)
  show ?thesis by simp
qed

lemma create_body_calls:
  assumes "create_body client mapper p st = Some st'"
  shows "\<exists>new. calls st' = calls st @ new \<and> new \<noteq> [] \<and> (\<forall>c\<in>set new. call_path c = p)
           \<and> (reloadDiscovery st' \<longleftrightarrow>
                reloadDiscovery st \<or> (\<exists>q e. RESTMappingCall q (Inl e) \<in> set new))"
  using assms
proof (cases rule: create_body_cases)
  case (unresolved f obj err)
  show ?thesis unfolding unresolved(4) by auto
next
  case (removed f obj mappings ns err w)
  show ?thesis unfolding removed(7) by auto
next
  case (failed f obj mappings ns e w)
  show ?thesis unfolding failed(7) by auto
qed

subsection \<open>The loop over the sorted paths\<close>

lemma create_loop_append:
  "create_loop client mapper (xs @ ys) st =
     (case create_loop client mapper xs st of
        None \<Rightarrow> None
      | Some s \<Rightarrow> create_loop client mapper ys s)"
  by (induction xs arbitrary: st) (auto split: option.splits)

lemma create_loop_frame:
  assumes "create_loop client mapper ps st = Some st'" and "p' \<notin> set ps"
  shows "map_of (manifests st') p' = map_of (manifests st) p'
       \<and> map_of (errs st') p' = map_of (errs st) p'
       \<and> calls_for p' (calls st') = calls_for p' (calls st)"
  using assms
proof (induction ps arbitrary: st)
  case Nil
  then show ?case by simp
next
  case (Cons p ps)
  from Cons.prems(1) obtain s1 where b: "create_body client mapper p st = Some s1"
    and l: "create_loop client mapper ps s1 = Some st'"
    by (auto split: option.splits)
  from Cons.prems(2) have ne: "p' \<noteq> p" and notin: "p' \<notin> set ps" by auto
  from Cons.IH[OF l notin] create_body_frame[OF b ne] show ?case by simp
qed

lemma create_loop_subset:
  assumes "create_loop client mapper ps st = Some st'"
  shows "set (manifests st') \<subseteq> set (manifests st)
       \<and> length (manifests st') \<le> length (manifests st)
       \<and> (wf_gomap (manifests st) \<longrightarrow> wf_gomap (manifests st'))
       \<and> (wf_gomap (errs st) \<longrightarrow> wf_gomap (errs st'))
       \<and> (reloadDiscovery st \<longrightarrow> reloadDiscovery st')"
  using assms
proof (induction ps arbitrary: st)
  case Nil
  then show ?case by simp
next
  case (Cons p ps)
  from Cons.prems(1) obtain s1 where b: "create_body client mapper p st = Some s1"
    and l: "create_loop client mapper ps s1 = Some st'"
    by (auto split: option.splits)
  note ih = Cons.IH[OF l]
  note bs = create_body_subset[OF b]
  have "set (manifests st') \<subseteq> set (manifests st)" using ih bs by blast
  moreover have "length (manifests st') \<le> length (manifests st)" using ih bs by linarith
  moreover have "wf_gomap (manifests st) \<longrightarrow> wf_gomap (manifests st')" using ih bs by blast
  moreover have "wf_gomap (errs st) \<longrightarrow> wf_gomap (errs st')" using ih bs by blast
  moreover have "reloadDiscovery st \<longrightarrow> reloadDiscovery st'" using ih bs by blast
  ultimately show ?case by blast
qed

lemma create_loop_world:
  assumes "create_loop client mapper ps st = Some st'"
    and "\<And>w r ns obj. w \<in> W \<Longrightarrow> snd (client w r ns obj) \<in> W"
    and "world st \<in> W"
  shows "world st' \<in> W"
  using assms(1,3)
proof (induction ps arbitrary: st)
  case Nil
  then show ?case by simp
next
  case (Cons p ps)
  from Cons.prems(1) obtain s1 where b: "create_body client mapper p st = Some s1"
    and l: "create_loop client mapper ps s1 = Some st'"
    by (auto split: option.splits)
  from create_body_world[OF b assms(2) Cons.prems(2)] have "world s1 \<in> W" by simp
  from Cons.IH[OF l this] show ?case .
qed

text \<open>
  In a loop over distinct paths, what the final state holds for one path is what the
  iteration for that path left: the iterations before and after do not touch it.
\<close>

lemma create_loop_at:
  assumes "create_loop client mapper ps st = Some st'" and "distinct ps" and "p \<in> set ps"
  obtains sa sb where
    "create_body client mapper p sa = Some sb"
    "map_of (manifests sa) p = map_of (manifests st) p"
    "map_of (errs sa) p = map_of (errs st) p"
    "calls_for p (calls sa) = calls_for p (calls st)"
    "map_of (manifests st') p = map_of (manifests sb) p"
    "map_of (errs st') p = map_of (errs sb) p"
    "calls_for p (calls st') = calls_for p (calls sb)"
    "reloadDiscovery sb \<longrightarrow> reloadDiscovery st'"
    "\<And>W. (\<And>w r ns obj. w \<in> W \<Longrightarrow> snd (client w r ns obj) \<in> W) \<Longrightarrow> world st \<in> W
        \<Longrightarrow> world sa \<in> W"
proof -
  from assms(3) obtain xs ys where ps: "ps = xs @ p # ys"
    by (meson split_list)
  with assms(2) have nx: "p \<notin> set xs" and ny: "p \<notin> set ys" by auto
  from assms(1) ps obtain sa where la: "create_loop client mapper xs st = Some sa"
    and rest: "create_loop client mapper (p # ys) sa = Some st'"
    by (auto simp: create_loop_append split: option.splits)
  from rest obtain sb where b: "create_body client mapper p sa = Some sb"
    and lb: "create_loop client mapper ys sb = Some st'"
    by (auto split: option.splits)
  note fa = create_loop_frame[OF la nx]
  note fb = create_loop_frame[OF lb ny]
  have w: "\<And>W. (\<And>w r ns obj. w \<in> W \<Longrightarrow> snd (client w r ns obj) \<in> W) \<Longrightarrow> world st \<in> W
        \<Longrightarrow> world sa \<in> W"
    using create_loop_world[OF la] by blast
  show ?thesis
  proof (rule that[OF b])
    show "map_of (manifests sa) p = map_of (manifests st) p" using fa by simp
    show "map_of (errs sa) p = map_of (errs st) p" using fa by simp
    show "calls_for p (calls sa) = calls_for p (calls st)" using fa by simp
    show "map_of (manifests st') p = map_of (manifests sb) p" using fb by simp
    show "map_of (errs st') p = map_of (errs sb) p" using fb by simp
    show "calls_for p (calls st') = calls_for p (calls sb)" using fb by simp
    show "reloadDiscovery sb \<longrightarrow> reloadDiscovery st'"
      using create_loop_subset[OF lb] by simp
    show "\<And>W. (\<And>w r ns obj. w \<in> W \<Longrightarrow> snd (client w r ns obj) \<in> W) \<Longrightarrow> world st \<in> W
        \<Longrightarrow> world sa \<in> W"
      using w by blast
  qed
qed

lemma create_loop_total:
  assumes "distinct ps" and "set ps \<subseteq> key_set (manifests st)"
  shows "\<exists>st'. create_loop client (Some f) ps st = Some st'"
  using assms
proof (induction ps arbitrary: st)
  case Nil
  then show ?case by simp
next
  case (Cons p ps)
  from Cons.prems have pin: "p \<in> key_set (manifests st)" and pn: "p \<notin> set ps"
    and d: "distinct ps" by auto
  from create_body_total[OF pin] obtain s1
    where b: "create_body client (Some f) p st = Some s1" by blast
  have "set ps \<subseteq> key_set (manifests s1)"
  proof
    fix x assume x: "x \<in> set ps"
    with pn have ne: "x \<noteq> p" by auto
    from x Cons.prems(2) have "x \<in> key_set (manifests st)" by auto
    then have "map_of (manifests st) x \<noteq> None"
      by (simp add: key_set_def map_of_eq_None_iff)
    with create_body_frame[OF b ne] have "map_of (manifests s1) x \<noteq> None" by simp
    then show "x \<in> key_set (manifests s1)"
      by (simp add: key_set_def map_of_eq_None_iff)
  qed
  from Cons.IH[OF d this] b show ?case by simp
qed

lemma remdups_adj_same_prefix:
  assumes "\<forall>c\<in>set cs. c = p" and "rest = [] \<or> hd rest \<noteq> p"
  shows "remdups_adj (p # cs @ rest) = p # remdups_adj rest"
  using assms
proof (induction cs)
  case Nil
  then show ?case by (cases rest) auto
next
  case (Cons c cs)
  then have "c = p" and "remdups_adj (p # cs @ rest) = p # remdups_adj rest" by simp_all
  then show ?case by simp
qed

lemma sorted_map_const:
  "\<forall>c\<in>set xs. f c = (p::string) \<Longrightarrow> sorted (map f xs)"
  by (induction xs) auto

text \<open>
  The calls a loop adds are those of its iterations in order, and the reload flag is set
  by a failed lookup and by nothing else.
\<close>

lemma create_loop_calls:
  assumes "create_loop client mapper ps st = Some st'"
  shows "\<exists>new. calls st' = calls st @ new
           \<and> set (map call_path new) = set ps
           \<and> (sorted ps \<longrightarrow> sorted (map call_path new))
           \<and> (distinct ps \<longrightarrow> remdups_adj (map call_path new) = ps)
           \<and> (reloadDiscovery st' \<longleftrightarrow>
                reloadDiscovery st \<or> (\<exists>q e. RESTMappingCall q (Inl e) \<in> set new))"
  using assms
proof (induction ps arbitrary: st)
  case Nil
  then show ?case by simp
next
  case (Cons p ps)
  from Cons.prems(1) obtain s1 where b: "create_body client mapper p st = Some s1"
    and l: "create_loop client mapper ps s1 = Some st'"
    by (auto split: option.splits)
  from create_body_calls[OF b] obtain nb where nb: "calls s1 = calls st @ nb" "nb \<noteq> []"
    "\<forall>c\<in>set nb. call_path c = p"
    "reloadDiscovery s1 \<longleftrightarrow> reloadDiscovery st \<or> (\<exists>q e. RESTMappingCall q (Inl e) \<in> set nb)"
    by blast
  from Cons.IH[OF l] obtain nl where nl: "calls st' = calls s1 @ nl"
    "set (map call_path nl) = set ps"
    "sorted ps \<longrightarrow> sorted (map call_path nl)"
    "distinct ps \<longrightarrow> remdups_adj (map call_path nl) = ps"
    "reloadDiscovery st' \<longleftrightarrow> reloadDiscovery s1 \<or> (\<exists>q e. RESTMappingCall q (Inl e) \<in> set nl)"
    by blast
  let ?new = "nb @ nl"
  have 1: "calls st' = calls st @ ?new" using nb(1) nl(1) by simp
  have pb: "set (map call_path nb) = {p}" using nb(2,3) by (cases nb) auto
  have 2: "set (map call_path ?new) = set (p # ps)" using pb nl(2) by auto
  have 3: "sorted (p # ps) \<longrightarrow> sorted (map call_path ?new)"
  proof
    assume s: "sorted (p # ps)"
    then have "sorted (map call_path nl)" using nl(3) by simp
    moreover have "sorted (map call_path nb)" using nb(3)
      by (rule sorted_map_const)
    moreover have "\<forall>x\<in>set (map call_path nb). \<forall>y\<in>set (map call_path nl). x \<le> y"
      using s pb nl(2) by auto
    ultimately show "sorted (map call_path ?new)"
      by (simp add: sorted_append)
  qed
  have 4: "distinct (p # ps) \<longrightarrow> remdups_adj (map call_path ?new) = p # ps"
  proof
    assume d: "distinct (p # ps)"
    then have r: "remdups_adj (map call_path nl) = ps" using nl(4) by simp
    have "map call_path nl = [] \<or> hd (map call_path nl) \<noteq> p"
    proof (cases "map call_path nl")
      case Nil
      then show ?thesis by simp
    next
      case (Cons x xs)
      then have "x \<in> set (map call_path nl)" by simp
      then have "x \<in> set ps" using nl(2) by simp
      with d have "x \<noteq> p" by auto
      with Cons show ?thesis by simp
    qed
    moreover obtain c cs where nbc: "nb = c # cs" using nb(2) by (cases nb) auto
    moreover have "call_path c = p" and "\<forall>x\<in>set (map call_path cs). x = p"
      using nb(3) nbc by auto
    ultimately have "remdups_adj (p # map call_path cs @ map call_path nl)
                       = p # remdups_adj (map call_path nl)"
      by (intro remdups_adj_same_prefix) simp_all
    then show "remdups_adj (map call_path ?new) = p # ps"
      using nbc \<open>call_path c = p\<close> r by simp
  qed
  have 5: "reloadDiscovery st' \<longleftrightarrow>
             reloadDiscovery st \<or> (\<exists>q e. RESTMappingCall q (Inl e) \<in> set ?new)"
    using nb(4) nl(5) by auto
  show ?case
  proof (intro exI conjI)
    show "calls st' = calls st @ ?new" by (rule 1)
    show "set (map call_path ?new) = set (p # ps)" by (rule 2)
    show "sorted (p # ps) \<longrightarrow> sorted (map call_path ?new)" by (rule 3)
    show "distinct (p # ps) \<longrightarrow> remdups_adj (map call_path ?new) = p # ps" by (rule 4)
    show "reloadDiscovery st' \<longleftrightarrow>
            reloadDiscovery st \<or> (\<exists>q e. RESTMappingCall q (Inl e) \<in> set ?new)" by (rule 5)
  qed
qed

subsection \<open>A round of the apply step\<close>

lemma wf_gomap_sort:
  "wf_gomap ms \<Longrightarrow> distinct (sort (map fst ms))"
  by (simp add: wf_gomap_def)

lemma calls_for_append:
  "calls_for p (xs @ ys) = calls_for p xs @ calls_for p ys"
  by (simp add: calls_for_def)

lemma in_calls_for:
  "c \<in> set (calls_for p cs) \<longleftrightarrow> c \<in> set cs \<and> call_path c = p"
  by (auto simp: calls_for_def)

lemma keys_map_of:
  "p \<in> key_set m \<longleftrightarrow> map_of m p \<noteq> None"
  by (simp add: key_set_def map_of_eq_None_iff)

lemma keys_eq_dom: "key_set m = dom (map_of m)"
  by (simp add: key_set_def dom_map_of_conv_image_fst)

text \<open>
  The outcome of a round for one pending manifest, read off the final state and the calls.
\<close>

lemma create_run_at:
  assumes wf: "wf_gomap ms" and run: "create_run ms client mapper w = Some st"
    and p: "map_of ms p = Some obj"
  obtains
    (unresolved) f err where
      "mapper = Some f" "resolve f obj = Inl err"
      "calls_for p (calls st) = [RESTMappingCall p (Inl err)]"
      "map_of (errs st) p = Some (''unable to get REST mapping: '' @ err)"
      "map_of (manifests st) p = Some obj"
      "reloadDiscovery st"
  | (removed) f mappings err wa wb where
      "mapper = Some f" "resolve f obj = Inr mappings"
      "client wa (MappingResource mappings) (request_namespace mappings obj) obj = (err, wb)"
      "err = None \<or> IsAlreadyExists err"
      "calls_for p (calls st)
         = [RESTMappingCall p (Inr mappings), CreateCall p (request_namespace mappings obj) err]"
      "map_of (errs st) p = None"
      "map_of (manifests st) p = None"
      "\<And>W. (\<And>w r ns obj. w \<in> W \<Longrightarrow> snd (client w r ns obj) \<in> W) \<Longrightarrow> w \<in> W \<Longrightarrow> wa \<in> W"
  | (failed) f mappings e wa wb where
      "mapper = Some f" "resolve f obj = Inr mappings"
      "client wa (MappingResource mappings) (request_namespace mappings obj) obj = (Some e, wb)"
      "\<not> IsAlreadyExists (Some e)"
      "calls_for p (calls st)
         = [RESTMappingCall p (Inr mappings), CreateCall p (request_namespace mappings obj) (Some e)]"
      "map_of (errs st) p = Some (''failed to create: '' @ Error e)"
      "map_of (manifests st) p = Some obj"
      "\<And>W. (\<And>w r ns obj. w \<in> W \<Longrightarrow> snd (client w r ns obj) \<in> W) \<Longrightarrow> w \<in> W \<Longrightarrow> wa \<in> W"
proof -
  let ?st0 = "\<lparr>manifests = ms, errs = [], reloadDiscovery = False, world = w, calls = []\<rparr>"
  let ?ps = "sort (map fst ms)"
  from run have loop: "create_loop client mapper ?ps ?st0 = Some st"
    by (simp add: create_run_def)
  from p have "p \<in> fst ` set ms" by (metis map_of_eq_None_iff option.distinct(1))
  then have pin: "p \<in> set ?ps" by simp
  from create_loop_at[OF loop wf_gomap_sort[OF wf] pin]
  obtain sa sb where b: "create_body client mapper p sa = Some sb"
    and ma: "map_of (manifests sa) p = map_of (manifests ?st0) p"
    and ea: "map_of (errs sa) p = map_of (errs ?st0) p"
    and ca: "calls_for p (calls sa) = calls_for p (calls ?st0)"
    and mb: "map_of (manifests st) p = map_of (manifests sb) p"
    and eb: "map_of (errs st) p = map_of (errs sb) p"
    and cb: "calls_for p (calls st) = calls_for p (calls sb)"
    and rb: "reloadDiscovery sb \<longrightarrow> reloadDiscovery st"
    and wa: "\<And>W. (\<And>w r ns obj. w \<in> W \<Longrightarrow> snd (client w r ns obj) \<in> W) \<Longrightarrow> world ?st0 \<in> W
        \<Longrightarrow> world sa \<in> W"
    by blast
  from ma p have ma': "map_of (manifests sa) p = Some obj" by simp
  from ea have ea': "map_of (errs sa) p = None" by simp
  from ca have ca': "calls_for p (calls sa) = []" by (simp add: calls_for_def)
  from wa have wa': "\<And>W. (\<And>w r ns obj. w \<in> W \<Longrightarrow> snd (client w r ns obj) \<in> W) \<Longrightarrow> w \<in> W
        \<Longrightarrow> world sa \<in> W" by simp
  from b show ?thesis
  proof (cases rule: create_body_cases)
    case (unresolved f obj' err)
    from unresolved(2) ma' have o: "obj' = obj" by simp
    show ?thesis
    proof (rule that(1))
      show "mapper = Some f" by (rule unresolved(1))
      show "resolve f obj = Inl err" by (rule unresolved(3)[unfolded o])
      have "calls_for p (calls sb) = [RESTMappingCall p (Inl err)]"
        unfolding unresolved(4) using ca' by (simp add: calls_for_append) (simp add: calls_for_def)
      then show "calls_for p (calls st) = [RESTMappingCall p (Inl err)]" using cb by simp
      have "map_of (errs sb) p = Some (''unable to get REST mapping: '' @ err)"
        unfolding unresolved(4) by (simp add: update_conv')
      then show "map_of (errs st) p = Some (''unable to get REST mapping: '' @ err)"
        using eb by simp
      have "map_of (manifests sb) p = Some obj"
        unfolding unresolved(4) using ma' by simp
      then show "map_of (manifests st) p = Some obj" using mb by simp
      have "reloadDiscovery sb" unfolding unresolved(4) by simp
      then show "reloadDiscovery st" using rb by simp
    qed
  next
    case (removed f obj' mappings ns err w')
    from removed(2) ma' have o: "obj' = obj" by simp
    show ?thesis
    proof (rule that(2))
      show "mapper = Some f" by (rule removed(1))
      show "resolve f obj = Inr mappings" by (rule removed(3)[unfolded o])
      show "client (world sa) (MappingResource mappings) (request_namespace mappings obj) obj
              = (err, w')"
        by (rule removed(5)[unfolded removed(4) o])
      show "err = None \<or> IsAlreadyExists err" by (rule removed(6))
      have "calls_for p (calls sb)
              = [RESTMappingCall p (Inr mappings), CreateCall p ns err]"
        unfolding removed(7) using ca' by (simp add: calls_for_append) (simp add: calls_for_def)
      then show "calls_for p (calls st)
         = [RESTMappingCall p (Inr mappings), CreateCall p (request_namespace mappings obj) err]"
        unfolding cb removed(4) o .
      have "map_of (errs sb) p = None"
        unfolding removed(7) using ea' by simp
      then show "map_of (errs st) p = None" using eb by simp
      have "map_of (manifests sb) p = None"
        unfolding removed(7) by (simp add: delete_conv')
      then show "map_of (manifests st) p = None" using mb by simp
      show "\<And>W. (\<And>w r ns obj. w \<in> W \<Longrightarrow> snd (client w r ns obj) \<in> W) \<Longrightarrow> w \<in> W
              \<Longrightarrow> world sa \<in> W"
        using wa' by blast
    qed
  next
    case (failed f obj' mappings ns e w')
    from failed(2) ma' have o: "obj' = obj" by simp
    show ?thesis
    proof (rule that(3))
      show "mapper = Some f" by (rule failed(1))
      show "resolve f obj = Inr mappings" by (rule failed(3)[unfolded o])
      show "client (world sa) (MappingResource mappings) (request_namespace mappings obj) obj
              = (Some e, w')"
        by (rule failed(5)[unfolded failed(4) o])
      show "\<not> IsAlreadyExists (Some e)" by (rule failed(6))
      have "calls_for p (calls sb)
              = [RESTMappingCall p (Inr mappings), CreateCall p ns (Some e)]"
        unfolding failed(7) using ca' by (simp add: calls_for_append) (simp add: calls_for_def)
      then show "calls_for p (calls st)
         = [RESTMappingCall p (Inr mappings),
            CreateCall p (request_namespace mappings obj) (Some e)]"
        unfolding cb failed(4) o .
      have "map_of (errs sb) p = Some (''failed to create: '' @ Error e)"
        unfolding failed(7) by (simp add: update_conv')
      then show "map_of (errs st) p = Some (''failed to create: '' @ Error e)"
        using eb by simp
      have "map_of (manifests sb) p = Some obj"
        unfolding failed(7) using ma' by simp
      then show "map_of (manifests st) p = Some obj" using mb by simp
      show "\<And>W. (\<And>w r ns obj. w \<in> W \<Longrightarrow> snd (client w r ns obj) \<in> W) \<Longrightarrow> w \<in> W
              \<Longrightarrow> world sa \<in> W"
        using wa' by blast
    qed
  qed
qed

text \<open>
  A round on a pending set with distinct keys and a mapper that is not nil does not panic.
\<close>

lemma create_run_total:
  assumes "wf_gomap ms"
  shows "\<exists>st. create_run ms client (Some f) w = Some st"
  unfolding create_run_def Let_def
  by (rule create_loop_total) (use assms in \<open>simp_all add: wf_gomap_def key_set_def\<close>)

lemma create_run_global:
  assumes run: "create_run ms client mapper w = Some st"
  shows "set (manifests st) \<subseteq> set ms"
    and "length (manifests st) \<le> length ms"
    and "wf_gomap ms \<longrightarrow> wf_gomap (manifests st)"
    and "wf_gomap (errs st)"
    and "set (map call_path (calls st)) = key_set ms"
    and "sorted (map call_path (calls st))"
    and "wf_gomap ms \<longrightarrow> remdups_adj (map call_path (calls st)) = sort (map fst ms)"
    and "reloadDiscovery st \<longleftrightarrow> (\<exists>p e. RESTMappingCall p (Inl e) \<in> set (calls st))"
    and "key_set (errs st) \<subseteq> key_set ms"
proof -
  let ?st0 = "\<lparr>manifests = ms, errs = [], reloadDiscovery = False, world = w, calls = []\<rparr>"
  let ?ps = "sort (map fst ms)"
  from run have loop: "create_loop client mapper ?ps ?st0 = Some st"
    by (simp add: create_run_def)
  from create_loop_subset[OF loop]
  show "set (manifests st) \<subseteq> set ms" and "length (manifests st) \<le> length ms"
    and "wf_gomap ms \<longrightarrow> wf_gomap (manifests st)" and "wf_gomap (errs st)"
    by (simp_all add: wf_gomap_def)
  from create_loop_calls[OF loop] obtain new where new: "calls st = calls ?st0 @ new"
    "set (map call_path new) = set ?ps"
    "sorted ?ps \<longrightarrow> sorted (map call_path new)"
    "distinct ?ps \<longrightarrow> remdups_adj (map call_path new) = ?ps"
    "reloadDiscovery st \<longleftrightarrow>
       reloadDiscovery ?st0 \<or> (\<exists>q e. RESTMappingCall q (Inl e) \<in> set new)"
    by blast
  from new(1) have cs: "calls st = new" by simp
  show "set (map call_path (calls st)) = key_set ms"
    using new(2) unfolding cs by (simp add: key_set_def)
  show "sorted (map call_path (calls st))"
    using new(3) unfolding cs by simp
  show "wf_gomap ms \<longrightarrow> remdups_adj (map call_path (calls st)) = sort (map fst ms)"
    using new(4) unfolding cs by (simp add: wf_gomap_def)
  show "reloadDiscovery st \<longleftrightarrow> (\<exists>p e. RESTMappingCall p (Inl e) \<in> set (calls st))"
    using new(5) unfolding cs by simp
  show "key_set (errs st) \<subseteq> key_set ms"
  proof
    fix p assume p: "p \<in> key_set (errs st)"
    show "p \<in> key_set ms"
    proof (rule ccontr)
      assume "p \<notin> key_set ms"
      then have "p \<notin> set ?ps" by (simp add: key_set_def)
      from create_loop_frame[OF loop this] have "map_of (errs st) p = None" by simp
      with p show False by (simp add: keys_map_of)
    qed
  qed
qed

lemma create_Some:
  "create q ms client mapper w = Some (err, refresh, ms', w', cs) \<longleftrightarrow>
     (\<exists>st. create_run ms client mapper w = Some st \<and> err = formatErrors q (errs st)
        \<and> refresh = reloadDiscovery st \<and> ms' = manifests st \<and> w' = world st \<and> cs = calls st)"
  by (auto simp: create_def split: option.splits)

lemma formatErrors_None:
  "formatErrors q errors = None \<longleftrightarrow> errors = []"
  by (simp add: formatErrors_def Let_def)

lemma create_run_removed_iff:
  assumes wf: "wf_gomap ms" and run: "create_run ms client mapper w = Some st"
    and p: "p \<in> key_set ms"
  shows "p \<notin> key_set (manifests st) \<longleftrightarrow>
           (\<exists>ns e. CreateCall p ns e \<in> set (calls st) \<and> (e = None \<or> IsAlreadyExists e))"
proof -
  from p obtain obj where obj: "map_of ms p = Some obj" by (auto simp: keys_map_of)
  from wf run obj show ?thesis
  proof (cases rule: create_run_at)
    case (unresolved f err)
    have "\<not> (\<exists>ns e. CreateCall p ns e \<in> set (calls st))"
    proof
      assume "\<exists>ns e. CreateCall p ns e \<in> set (calls st)"
      then obtain ns e where "CreateCall p ns e \<in> set (calls_for p (calls st))"
        by (auto simp: in_calls_for)
      then show False unfolding unresolved(3) by simp
    qed
    moreover have "p \<in> key_set (manifests st)" using unresolved(5) by (simp add: keys_map_of)
    ultimately show ?thesis by blast
  next
    case (removed f mappings err wa wb)
    have "CreateCall p (request_namespace mappings obj) err \<in> set (calls_for p (calls st))"
      unfolding removed(5) by simp
    then have "CreateCall p (request_namespace mappings obj) err \<in> set (calls st)"
      by (simp add: in_calls_for)
    moreover have "p \<notin> key_set (manifests st)" using removed(7) by (simp add: keys_map_of)
    ultimately show ?thesis using removed(4) by blast
  next
    case (failed f mappings e wa wb)
    have "\<not> (\<exists>ns e'. CreateCall p ns e' \<in> set (calls st) \<and> (e' = None \<or> IsAlreadyExists e'))"
    proof
      assume "\<exists>ns e'. CreateCall p ns e' \<in> set (calls st) \<and> (e' = None \<or> IsAlreadyExists e')"
      then obtain ns e' where c: "CreateCall p ns e' \<in> set (calls_for p (calls st))"
        and e': "e' = None \<or> IsAlreadyExists e'"
        by (auto simp: in_calls_for)
      from c have "e' = Some e" unfolding failed(5) by simp
      with e' failed(4) show False by simp
    qed
    moreover have "p \<in> key_set (manifests st)" using failed(7) by (simp add: keys_map_of)
    ultimately show ?thesis by blast
  qed
qed

lemma create_run_call_path:
  assumes run: "create_run ms client mapper w = Some st" and c: "c \<in> set (calls st)"
  shows "call_path c \<in> key_set ms"
proof -
  from c have "call_path c \<in> set (map call_path (calls st))" by simp
  then show ?thesis unfolding create_run_global(5)[OF run] .
qed

lemma create_run_unresolved_call:
  assumes wf: "wf_gomap ms" and run: "create_run ms client mapper w = Some st"
    and c: "RESTMappingCall p (Inl e) \<in> set (calls st)"
  shows "p \<in> key_set (manifests st)
       \<and> map_of (errs st) p = Some (''unable to get REST mapping: '' @ e)"
proof -
  from create_run_call_path[OF run c] have "p \<in> key_set ms" by simp
  then obtain obj where obj: "map_of ms p = Some obj" by (auto simp: keys_map_of)
  from c have cf: "RESTMappingCall p (Inl e) \<in> set (calls_for p (calls st))"
    by (simp add: in_calls_for)
  from wf run obj show ?thesis
  proof (cases rule: create_run_at)
    case (unresolved f err)
    from cf have "err = e" unfolding unresolved(3) by simp
    with unresolved(4,5) show ?thesis by (simp add: keys_map_of)
  next
    case (removed f mappings err wa wb)
    from cf show ?thesis unfolding removed(5) by simp
  next
    case (failed f mappings e' wa wb)
    from cf show ?thesis unfolding failed(5) by simp
  qed
qed

lemma create_run_create_call:
  assumes wf: "wf_gomap ms" and run: "create_run ms client mapper w = Some st"
    and c: "CreateCall p ns e \<in> set (calls st)"
  shows "(e = None \<or> IsAlreadyExists e \<longrightarrow>
            p \<notin> key_set (manifests st) \<and> p \<notin> key_set (errs st))
       \<and> (\<forall>e'. e = Some e' \<and> \<not> IsAlreadyExists e \<longrightarrow>
            p \<in> key_set (manifests st)
            \<and> map_of (errs st) p = Some (''failed to create: '' @ Error e'))"
proof -
  from create_run_call_path[OF run c] have "p \<in> key_set ms" by simp
  then obtain obj where obj: "map_of ms p = Some obj" by (auto simp: keys_map_of)
  from c have cf: "CreateCall p ns e \<in> set (calls_for p (calls st))"
    by (simp add: in_calls_for)
  from wf run obj show ?thesis
  proof (cases rule: create_run_at)
    case (unresolved f err)
    from cf show ?thesis unfolding unresolved(3) by simp
  next
    case (removed f mappings err wa wb)
    from cf have "e = err" unfolding removed(5) by simp
    with removed(4,6,7) show ?thesis by (auto simp: keys_map_of)
  next
    case (failed f mappings e' wa wb)
    from cf have "e = Some e'" unfolding failed(5) by simp
    with failed(4,6,7) show ?thesis by (auto simp: keys_map_of)
  qed
qed

lemma create_run_calls_for:
  assumes wf: "wf_gomap ms" and run: "create_run ms client (Some f) w = Some st"
    and obj: "map_of ms p = Some obj"
  shows "calls_for p (calls st) = [RESTMappingCall p (resolve f obj)]
       \<or> (\<exists>ns e. calls_for p (calls st)
                     = [RESTMappingCall p (resolve f obj), CreateCall p ns e])"
  using wf run obj
proof (cases rule: create_run_at)
  case (unresolved f' err)
  then show ?thesis by simp
next
  case (removed f' mappings err wa wb)
  from removed(1) have "f' = f" by simp
  with removed(2,5) show ?thesis by simp
next
  case (failed f' mappings e wa wb)
  from failed(1) have "f' = f" by simp
  with failed(2,5) show ?thesis by simp
qed

lemma create_run_mapping_call:
  assumes wf: "wf_gomap ms" and run: "create_run ms client (Some f) w = Some st"
    and c: "RESTMappingCall p r \<in> set (calls st)"
  shows "\<exists>obj. map_of ms p = Some obj \<and> r = resolve f obj"
proof -
  from create_run_call_path[OF run c] have "p \<in> key_set ms" by simp
  then obtain obj where obj: "map_of ms p = Some obj" by (auto simp: keys_map_of)
  from c have cf: "RESTMappingCall p r \<in> set (calls_for p (calls st))"
    by (simp add: in_calls_for)
  from create_run_calls_for[OF wf run obj] cf have "r = resolve f obj" by auto
  with obj show ?thesis by blast
qed

lemma create_run_reload_iff:
  assumes wf: "wf_gomap ms" and run: "create_run ms client (Some f) w = Some st"
  shows "reloadDiscovery st \<longleftrightarrow> (\<exists>p obj e. map_of ms p = Some obj \<and> resolve f obj = Inl e)"
proof
  assume "reloadDiscovery st"
  then obtain p e where "RESTMappingCall p (Inl e) \<in> set (calls st)"
    using create_run_global(8)[OF run] by blast
  from create_run_mapping_call[OF wf run this]
  show "\<exists>p obj e. map_of ms p = Some obj \<and> resolve f obj = Inl e" by metis
next
  assume "\<exists>p obj e. map_of ms p = Some obj \<and> resolve f obj = Inl e"
  then obtain p obj e where obj: "map_of ms p = Some obj" and e: "resolve f obj = Inl e"
    by blast
  from wf run obj show "reloadDiscovery st"
  proof (cases rule: create_run_at)
    case (unresolved f' err)
    then show ?thesis by simp
  next
    case (removed f' mappings err wa wb)
    with e show ?thesis by simp
  next
    case (failed f' mappings e' wa wb)
    with e show ?thesis by simp
  qed
qed

lemma create_run_removed_resolved:
  assumes wf: "wf_gomap ms" and run: "create_run ms client (Some f) w = Some st"
    and obj: "map_of ms p = Some obj" and gone: "p \<notin> key_set (manifests st)"
  shows "\<exists>m. resolve f obj = Inr m"
  using wf run obj
proof (cases rule: create_run_at)
  case (unresolved f' err)
  with gone show ?thesis by (simp add: keys_map_of)
next
  case (removed f' mappings err wa wb)
  then show ?thesis by simp
next
  case (failed f' mappings e wa wb)
  with gone show ?thesis by (simp add: keys_map_of)
qed

lemma create_run_no_failures:
  assumes wf: "wf_gomap ms" and run: "create_run ms client (Some f) w = Some st"
    and none: "errs st = []"
  shows "manifests st = []"
proof -
  have "key_set (manifests st) = {}"
  proof (rule ccontr)
    assume "key_set (manifests st) \<noteq> {}"
    then obtain p where p: "p \<in> key_set (manifests st)" by blast
    then obtain x where "(p, x) \<in> set (manifests st)" by (auto simp: key_set_def)
    with create_run_global(1)[OF run] have "(p, x) \<in> set ms" by blast
    then have "map_of ms p = Some x" using wf by (simp add: wf_gomap_def)
    with wf run show False
    proof (cases rule: create_run_at)
      case (unresolved f' err)
      with none show ?thesis by simp
    next
      case (removed f' mappings err wa wb)
      with p show ?thesis by (simp add: keys_map_of)
    next
      case (failed f' mappings e wa wb)
      with none show ?thesis by simp
    qed
  qed
  then show ?thesis by (simp add: key_set_def)
qed

lemma create_run_present:
  assumes wf: "wf_gomap ms" and run: "create_run ms client (Some f) w = Some st"
    and closed: "\<And>w r ns obj. w \<in> W \<Longrightarrow> snd (client w r ns obj) \<in> W"
    and start: "w \<in> W"
    and obj: "map_of ms p = Some obj" and res: "resolve f obj = Inr m"
    and present: "\<forall>w\<in>W. IsAlreadyExists
                    (fst (client w (MappingResource m) (request_namespace m obj) obj))"
  shows "p \<notin> key_set (manifests st) \<and> map_of (errs st) p = None
       \<and> (\<exists>ns e. CreateCall p ns e \<in> set (calls st) \<and> IsAlreadyExists e)"
  using wf run obj
proof (cases rule: create_run_at)
  case (unresolved f' err)
  with res show ?thesis by simp
next
  case (removed f' mappings err wa wb)
  from removed(1,2) res have m: "mappings = m" by simp
  from removed(8)[OF closed start] have "wa \<in> W" by simp
  with present removed(3) m have ae: "IsAlreadyExists err" by fastforce
  have "CreateCall p (request_namespace mappings obj) err \<in> set (calls_for p (calls st))"
    unfolding removed(5) by simp
  then have "CreateCall p (request_namespace mappings obj) err \<in> set (calls st)"
    by (simp add: in_calls_for)
  with ae removed(6,7) show ?thesis by (auto simp: keys_map_of)
next
  case (failed f' mappings e wa wb)
  from failed(1,2) res have m: "mappings = m" by simp
  from failed(8)[OF closed start] have "wa \<in> W" by simp
  with present failed(3) m have "IsAlreadyExists (Some e)" by fastforce
  with failed(4) show ?thesis by simp
qed

lemma create_refresh_error:
  assumes wf: "wf_gomap ms"
    and c: "create q ms client mapper w = Some (err, True, ms', w', cs)"
  shows "err \<noteq> None"
proof -
  from c obtain st where run: "create_run ms client mapper w = Some st"
    and err: "err = formatErrors q (errs st)" and r: "reloadDiscovery st"
    by (auto simp: create_Some)
  from r create_run_global(8)[OF run] obtain p e
    where "RESTMappingCall p (Inl e) \<in> set (calls st)" by blast
  from create_run_unresolved_call[OF wf run this] have "errs st \<noteq> []" by auto
  then show ?thesis unfolding err by (simp add: formatErrors_None)
qed

lemma sorted_nth_less_index:
  fixes xs :: "string list"
  assumes "sorted xs" and "i < length xs" and "j < length xs" and "xs ! i < xs ! j"
  shows "i < j"
proof (rule ccontr)
  assume "\<not> i < j"
  then have "j \<le> i" by simp
  from sorted_nth_mono[OF assms(1) this assms(2)] assms(4) show False by simp
qed

section \<open>Properties of error aggregation\<close>

lemma sort_keys_eq:
  assumes "wf_gomap e1" and "wf_gomap e2" and "map_of e1 = map_of e2"
  shows "sort (map fst e1) = sort (map fst e2)"
proof -
  from assms(3) have "key_set e1 = key_set e2" by (simp add: keys_eq_dom)
  then have "set (sort (map fst e1)) = set (sort (map fst e2))" by (simp add: key_set_def)
  moreover have "distinct (sort (map fst e1))" "distinct (sort (map fst e2))"
    using assms(1,2) by (simp_all add: wf_gomap_def)
  moreover have "sorted (sort (map fst e1))" "sorted (sort (map fst e2))" by simp_all
  ultimately show ?thesis by (intro sorted_distinct_set_unique)
qed

lemma errorAt_present:
  "k \<in> key_set errors \<Longrightarrow> map_of errors k = Some (errorAt errors k)"
  by (auto simp: errorAt_def keys_map_of)

section \<open>Properties of the loader\<close>

lemma load_body_wf:
  assumes "wf_gomap (fst acc)" and "wf_gomap (snd acc)"
  shows "wf_gomap (fst (load_body e entry acc)) \<and> wf_gomap (snd (load_body e entry acc))"
  using assms
  by (cases entry; cases acc)
     (auto simp: load_body_def wf_gomap_def distinct_update split: sum.splits)

lemma load_fold_wf:
  assumes "wf_gomap (fst acc)" and "wf_gomap (snd acc)"
  shows "wf_gomap (fst (fold (load_body e) files acc))
       \<and> wf_gomap (snd (fold (load_body e) files acc))"
  using assms
proof (induction files arbitrary: acc)
  case Nil
  then show ?case by simp
next
  case (Cons entry files)
  from load_body_wf[OF Cons.prems, of e entry]
  have "wf_gomap (fst (load_body e entry acc))" and "wf_gomap (snd (load_body e entry acc))"
    by simp_all
  from Cons.IH[OF this] show ?case by simp
qed

text \<open>
  The keys of the map \<^verbatim>\<open>load\<close> returns are distinct, whatever the order and the keys of
  the files.
\<close>

lemma load_wf: "wf_gomap (fst (load e assetsDir options))"
proof -
  have "wf_gomap (fst (fold (load_body e) files ([], [])))" for files
    using load_fold_wf[of "([], [])" e files] by (simp add: wf_gomap_def)
  then show ?thesis
    by (simp add: load_def Let_def wf_gomap_def split: sum.splits)
qed

lemma load_body_keeps_failed:
  "snd acc \<noteq> [] \<Longrightarrow> snd (load_body e entry acc) \<noteq> []"
  by (cases entry; cases acc) (auto simp: load_body_def split: sum.splits)

lemma load_body_records_failure:
  "decodeManifest e p b = Inl msg \<Longrightarrow> snd (load_body e (p, b) acc) \<noteq> []"
  by (cases acc) (simp add: load_body_def)

text \<open>
  A file that fails to decode leaves an entry in the failure map, and the entry stays.
\<close>

lemma load_fold_failed:
  assumes "snd acc \<noteq> [] \<or> (\<exists>p b msg. (p, b) \<in> set files \<and> decodeManifest e p b = Inl msg)"
  shows "snd (fold (load_body e) files acc) \<noteq> []"
  using assms
proof (induction files arbitrary: acc)
  case Nil
  then show ?case by simp
next
  case (Cons entry files)
  obtain p0 b0 where entry: "entry = (p0, b0)" by (cases entry)
  have "snd (load_body e entry acc) \<noteq> []
          \<or> (\<exists>p b msg. (p, b) \<in> set files \<and> decodeManifest e p b = Inl msg)"
  proof (cases "snd acc \<noteq> []")
    case True
    then show ?thesis using load_body_keeps_failed by blast
  next
    case False
    with Cons.prems obtain p b msg where pb: "(p, b) \<in> set (entry # files)"
      and d: "decodeManifest e p b = Inl msg" by blast
    show ?thesis
    proof (cases "(p, b) = entry")
      case True
      with d load_body_records_failure[of e p b msg acc] show ?thesis by auto
    next
      case False
      with pb d show ?thesis by auto
    qed
  qed
  from Cons.IH[OF this] show ?case by simp
qed

lemma load_decode_failure:
  assumes "\<not> StatIsNotExist e assetsDir"
    and "LoadFilesRecursively e assetsDir (Filters options) = Inr files"
    and "(p, b) \<in> set files" and "decodeManifest e p b = Inl msg"
  shows "snd (load e assetsDir options) \<noteq> None"
proof -
  have "snd (fold (load_body e) files ([], [])) \<noteq> []"
    by (rule load_fold_failed) (use assms(3,4) in blast)
  then show ?thesis using assms(1,2)
    by (simp add: load_def Let_def formatErrors_None)
qed

section \<open>Properties of the retry driver\<close>

declare PollImmediateUntil.simps [simp del]

text \<open>
  The four ways in which the closure returns, by the result of the apply step and of the
  discovery request.
\<close>

lemma conditionFunc_done:
  assumes "create (Quote e) (cur_manifests st) client (cur_mapper st) (cur_world st)
             = Some (None, refresh, ms', w', cs)"
  shows "conditionFunc e client dc st
           = Some ((True, None),
                   st\<lparr>cur_manifests := ms', cur_world := w', log := log st @ [ApplyCalls cs],
                      lastCreateError := None\<rparr>)"
  using assms by (simp add: conditionFunc_def)

lemma conditionFunc_retry:
  assumes "create (Quote e) (cur_manifests st) client (cur_mapper st) (cur_world st)
             = Some (Some createErr, False, ms', w', cs)"
  shows "conditionFunc e client dc st
           = Some ((False, None),
                   st\<lparr>cur_manifests := ms', cur_world := w', log := log st @ [ApplyCalls cs],
                      lastCreateError := Some createErr\<rparr>)"
  using assms by (simp add: conditionFunc_def)

lemma conditionFunc_refreshed:
  assumes "create (Quote e) (cur_manifests st) client (cur_mapper st) (cur_world st)
             = Some (Some createErr, True, ms', w', cs)"
    and "getRESTMapper e dc w' = (Inr m, w'')"
  shows "conditionFunc e client dc st
           = Some ((False, None),
                   st\<lparr>cur_manifests := ms', cur_mapper := Some m, lastCreateError := None,
                      cur_world := w'', log := log st @ [ApplyCalls cs, GetRESTMapperCall None]\<rparr>)"
  using assms by (simp add: conditionFunc_def)

lemma conditionFunc_refresh_failed:
  assumes "create (Quote e) (cur_manifests st) client (cur_mapper st) (cur_world st)
             = Some (Some createErr, True, ms', w', cs)"
    and "getRESTMapper e dc w' = (Inl err', w'')"
  shows "conditionFunc e client dc st
           = Some ((False, Some err'),
                   st\<lparr>cur_manifests := ms', cur_mapper := None, cur_world := w'',
                      log := log st @ [ApplyCalls cs, GetRESTMapperCall (Some err')]\<rparr>)"
  using assms by (simp add: conditionFunc_def)

text \<open>
  The polling, one evaluation of the condition at a time.
\<close>

lemma PollImmediateUntil_error:
  assumes "condition s = Some ((done, Some err), s')"
  shows "PollImmediateUntil n condition s = Some (Some err, s')"
  using assms by (subst PollImmediateUntil.simps) simp

lemma PollImmediateUntil_done:
  assumes "condition s = Some ((True, None), s')"
  shows "PollImmediateUntil n condition s = Some (None, s')"
  using assms by (subst PollImmediateUntil.simps) simp

lemma PollImmediateUntil_timeout:
  assumes "condition s = Some ((False, None), s')"
  shows "PollImmediateUntil 0 condition s = Some (Some ErrWaitTimeout, s')"
  using assms by (subst PollImmediateUntil.simps) simp

lemma PollImmediateUntil_next:
  assumes "condition s = Some ((False, None), s')"
  shows "PollImmediateUntil (Suc n) condition s = PollImmediateUntil n condition s'"
  using assms by (subst PollImmediateUntil.simps) simp

lemma PollImmediateUntil_panic:
  assumes "condition s = None"
  shows "PollImmediateUntil n condition s = None"
  using assms by (subst PollImmediateUntil.simps) simp

lemma conditionFunc_manifests:
  assumes "conditionFunc e client dc st = Some (res, st')"
  obtains err refresh w' cs where
    "create (Quote e) (cur_manifests st) client (cur_mapper st) (cur_world st)
       = Some (err, refresh, cur_manifests st', w', cs)"
proof -
  from assms obtain err refresh ms' w' cs where
    c: "create (Quote e) (cur_manifests st) client (cur_mapper st) (cur_world st)
          = Some (err, refresh, ms', w', cs)"
    by (cases "create (Quote e) (cur_manifests st) client (cur_mapper st) (cur_world st)")
       (auto simp: conditionFunc_def)
  from assms c have "cur_manifests st' = ms'"
    by (auto simp: conditionFunc_def Let_def split: option.splits if_splits prod.splits sum.splits)
  with c that show ?thesis by blast
qed

lemma conditionFunc_shrinks:
  assumes "conditionFunc e client dc st = Some (res, st')"
  shows "set (cur_manifests st') \<subseteq> set (cur_manifests st)
       \<and> length (cur_manifests st') \<le> length (cur_manifests st)"
proof -
  from assms obtain err refresh w' cs where
    "create (Quote e) (cur_manifests st) client (cur_mapper st) (cur_world st)
       = Some (err, refresh, cur_manifests st', w', cs)"
    by (rule conditionFunc_manifests)
  then obtain sc where run: "create_run (cur_manifests st) client (cur_mapper st) (cur_world st)
                               = Some sc"
    and ms: "cur_manifests st' = manifests sc"
    by (auto simp: create_Some)
  from create_run_global(1,2)[OF run] ms show ?thesis by simp
qed

lemma PollImmediateUntil_shrinks:
  assumes "PollImmediateUntil n (conditionFunc e client dc) st = Some (r, st')"
  shows "set (cur_manifests st') \<subseteq> set (cur_manifests st)
       \<and> length (cur_manifests st') \<le> length (cur_manifests st)"
  using assms
proof (induction n arbitrary: st)
  case 0
  from "0.prems" obtain res s1 where c: "conditionFunc e client dc st = Some (res, s1)"
    by (cases "conditionFunc e client dc st") (auto simp: PollImmediateUntil_panic)
  from "0.prems" c have "st' = s1"
    by (subst (asm) PollImmediateUntil.simps) (auto split: option.splits if_splits prod.splits)
  with conditionFunc_shrinks[OF c] show ?case by simp
next
  case (Suc n)
  from Suc.prems obtain res s1 where c: "conditionFunc e client dc st = Some (res, s1)"
    by (cases "conditionFunc e client dc st") (auto simp: PollImmediateUntil_panic)
  note sh = conditionFunc_shrinks[OF c]
  from Suc.prems c
  have "st' = s1 \<or> PollImmediateUntil n (conditionFunc e client dc) s1 = Some (r, st')"
    by (subst (asm) PollImmediateUntil.simps) (auto split: option.splits if_splits prod.splits)
  then show ?case
  proof
    assume "st' = s1"
    with sh show ?thesis by simp
  next
    assume "PollImmediateUntil n (conditionFunc e client dc) s1 = Some (r, st')"
    from Suc.IH[OF this] sh show ?thesis by (meson order_trans)
  qed
qed

lemma poll_inv_resolved_after:
  assumes wf: "wf_gomap ms" and run: "create_run ms client (Some f) w = Some sc"
    and nr: "\<not> reloadDiscovery sc" and obj: "map_of (manifests sc) p = Some obj"
  shows "\<exists>m. resolve f obj = Inr m"
proof -
  from obj have "(p, obj) \<in> set (manifests sc)" by (rule map_of_SomeD)
  with create_run_global(1)[OF run] have "(p, obj) \<in> set ms" by blast
  with wf have "map_of ms p = Some obj" by (simp add: wf_gomap_def)
  with nr create_run_reload_iff[OF wf run] have "\<not> (\<exists>e. resolve f obj = Inl e)" by blast
  then show ?thesis by (cases "resolve f obj") auto
qed

text \<open>
  The closure keeps \<^const>\<open>poll_inv\<close> as long as it returns no error, and when it returns
  one, no last error is recorded: a recorded last error means that the round before
  resolved every pending kind, and then this round, with the same mapper and no more
  manifests, does not set the reload flag.
\<close>

lemma conditionFunc_step:
  assumes inv: "poll_inv st" and c: "conditionFunc e client dc st = Some ((done, err), st')"
  shows "(err = None \<longrightarrow> poll_inv st')
       \<and> (\<forall>e'. err = Some e' \<longrightarrow>
            lastCreateError st' = None
          \<and> (\<exists>cs. log st' = log st @ [ApplyCalls cs, GetRESTMapperCall (Some e')]))"
proof -
  from inv obtain f where wf: "wf_gomap (cur_manifests st)" and f: "cur_mapper st = Some f"
    and last: "lastCreateError st \<noteq> None \<longrightarrow>
                 (\<forall>p obj. map_of (cur_manifests st) p = Some obj \<longrightarrow> (\<exists>m. resolve f obj = Inr m))"
    and nofail: "\<forall>err. GetRESTMapperCall (Some err) \<notin> set (log st)"
    by (auto simp: poll_inv_def)
  from create_run_total[OF wf, of client f "cur_world st"] obtain sc
    where run: "create_run (cur_manifests st) client (Some f) (cur_world st) = Some sc" by blast
  let ?cerr = "formatErrors (Quote e) (errs sc)"
  have cr: "create (Quote e) (cur_manifests st) client (cur_mapper st) (cur_world st)
              = Some (?cerr, reloadDiscovery sc, manifests sc, world sc, calls sc)"
    by (simp add: create_def run f)
  have wf': "wf_gomap (manifests sc)" using create_run_global(3)[OF run] wf by simp
  show ?thesis
  proof (cases ?cerr)
    case None
    with cr have "create (Quote e) (cur_manifests st) client (cur_mapper st) (cur_world st)
              = Some (None, reloadDiscovery sc, manifests sc, world sc, calls sc)" by simp
    from conditionFunc_done[OF this, of dc] c
    have st': "st' = st\<lparr>cur_manifests := manifests sc, cur_world := world sc,
                        log := log st @ [ApplyCalls (calls sc)], lastCreateError := None\<rparr>"
      and err: "err = None" by simp_all
    have "poll_inv st'" unfolding st' using wf' f nofail by (simp add: poll_inv_def)
    with err show ?thesis by simp
  next
    case (Some createErr)
    show ?thesis
    proof (cases "reloadDiscovery sc")
      case False
      with cr Some
      have "create (Quote e) (cur_manifests st) client (cur_mapper st) (cur_world st)
              = Some (Some createErr, False, manifests sc, world sc, calls sc)" by simp
      from conditionFunc_retry[OF this, of dc] c
      have st': "st' = st\<lparr>cur_manifests := manifests sc, cur_world := world sc,
                          log := log st @ [ApplyCalls (calls sc)],
                          lastCreateError := Some createErr\<rparr>"
        and err: "err = None" by simp_all
      have "\<forall>p obj. map_of (manifests sc) p = Some obj \<longrightarrow> (\<exists>m. resolve f obj = Inr m)"
        using poll_inv_resolved_after[OF wf run False] by blast
      then have "poll_inv st'" unfolding st' using wf' f nofail by (simp add: poll_inv_def)
      with err show ?thesis by simp
    next
      case True
      with cr Some
      have cr': "create (Quote e) (cur_manifests st) client (cur_mapper st) (cur_world st)
              = Some (Some createErr, True, manifests sc, world sc, calls sc)" by simp
      obtain res w'' where g: "getRESTMapper e dc (world sc) = (res, w'')"
        by (cases "getRESTMapper e dc (world sc)")
      show ?thesis
      proof (cases res)
        case (Inr m)
        from conditionFunc_refreshed[OF cr' g[unfolded Inr]] c
        have st': "st' = st\<lparr>cur_manifests := manifests sc, cur_mapper := Some m,
                            lastCreateError := None, cur_world := w'',
                            log := log st @ [ApplyCalls (calls sc), GetRESTMapperCall None]\<rparr>"
          and err: "err = None" by simp_all
        have "poll_inv st'" unfolding st' using wf' nofail by (simp add: poll_inv_def)
        with err show ?thesis by simp
      next
        case (Inl err')
        from conditionFunc_refresh_failed[OF cr' g[unfolded Inl]] c
        have st': "st' = st\<lparr>cur_manifests := manifests sc, cur_mapper := None, cur_world := w'',
                            log := log st @ [ApplyCalls (calls sc),
                                             GetRESTMapperCall (Some err')]\<rparr>"
          and err: "err = Some err'" by simp_all
        have "lastCreateError st = None"
        proof (rule ccontr)
          assume "lastCreateError st \<noteq> None"
          with last have "\<forall>p obj. map_of (cur_manifests st) p = Some obj
                            \<longrightarrow> (\<exists>m. resolve f obj = Inr m)" by simp
          then have "\<not> (\<exists>p obj e. map_of (cur_manifests st) p = Some obj
                            \<and> resolve f obj = Inl e)" by fastforce
          with create_run_reload_iff[OF wf run] True show False by simp
        qed
        then have "lastCreateError st' = None" unfolding st' by simp
        moreover have "log st' = log st @ [ApplyCalls (calls sc), GetRESTMapperCall (Some err')]"
          unfolding st' by simp
        ultimately show ?thesis using err by simp
      qed
    qed
  qed
qed

text \<open>
  A polling that starts in a state with \<^const>\<open>poll_inv\<close> and meets a failing discovery
  request ends with that request and returns its error.
\<close>

lemma poll_refresh_failure_last:
  assumes inv: "poll_inv st"
    and p: "PollImmediateUntil n (conditionFunc e client dc) st = Some (r, st')"
    and f: "GetRESTMapperCall (Some e') \<in> set (log st')"
  shows "r = Some e' \<and> lastCreateError st' = None \<and> last (log st') = GetRESTMapperCall (Some e')"
  using inv p
proof (induction n arbitrary: st)
  case 0
  from "0.prems"(2) obtain d err s1 where c: "conditionFunc e client dc st = Some ((d, err), s1)"
    by (cases "conditionFunc e client dc st") (auto simp: PollImmediateUntil_panic)
  note step = conditionFunc_step[OF "0.prems"(1) c]
  show ?case
  proof (cases err)
    case (Some x)
    from PollImmediateUntil_error[where condition="conditionFunc e client dc" and s=st,
        OF c[unfolded Some]] "0.prems"(2)
    have r: "r = Some x" and s: "st' = s1" by simp_all
    from step Some obtain cs where l: "lastCreateError s1 = None"
      and lg: "log s1 = log st @ [ApplyCalls cs, GetRESTMapperCall (Some x)]" by blast
    from "0.prems"(1) have "\<forall>err. GetRESTMapperCall (Some err) \<notin> set (log st)"
      by (simp add: poll_inv_def)
    with f lg s have "e' = x" by auto
    with r l lg s show ?thesis by simp
  next
    case None
    with step have i: "poll_inv s1" by simp
    have "st' = s1"
    proof (cases d)
      case True
      with c None have "conditionFunc e client dc st = Some ((True, None), s1)" by simp
      from PollImmediateUntil_done[where condition="conditionFunc e client dc" and s=st, OF this]
        "0.prems"(2) show ?thesis by simp
    next
      case False
      with c None have "conditionFunc e client dc st = Some ((False, None), s1)" by simp
      from PollImmediateUntil_timeout[where condition="conditionFunc e client dc" and s=st, OF this]
        "0.prems"(2) show ?thesis by simp
    qed
    with i f show ?thesis by (simp add: poll_inv_def)
  qed
next
  case (Suc n)
  from Suc.prems(2) obtain d err s1 where c: "conditionFunc e client dc st = Some ((d, err), s1)"
    by (cases "conditionFunc e client dc st") (auto simp: PollImmediateUntil_panic)
  note step = conditionFunc_step[OF Suc.prems(1) c]
  show ?case
  proof (cases err)
    case (Some x)
    from PollImmediateUntil_error[where condition="conditionFunc e client dc" and s=st,
        OF c[unfolded Some]] Suc.prems(2)
    have r: "r = Some x" and s: "st' = s1" by simp_all
    from step Some obtain cs where l: "lastCreateError s1 = None"
      and lg: "log s1 = log st @ [ApplyCalls cs, GetRESTMapperCall (Some x)]" by blast
    from Suc.prems(1) have "\<forall>err. GetRESTMapperCall (Some err) \<notin> set (log st)"
      by (simp add: poll_inv_def)
    with f lg s have "e' = x" by auto
    with r l lg s show ?thesis by simp
  next
    case None
    with step have i: "poll_inv s1" by simp
    show ?thesis
    proof (cases d)
      case True
      with c None have "conditionFunc e client dc st = Some ((True, None), s1)" by simp
      from PollImmediateUntil_done[where condition="conditionFunc e client dc" and s=st, OF this]
        Suc.prems(2)
      have "st' = s1" by simp
      with i f show ?thesis by (simp add: poll_inv_def)
    next
      case False
      with c None have "conditionFunc e client dc st = Some ((False, None), s1)" by simp
      from PollImmediateUntil_next[where condition="conditionFunc e client dc" and s=st, OF this]
        Suc.prems(2)
      have "PollImmediateUntil n (conditionFunc e client dc) s1 = Some (r, st')" by simp
      from Suc.IH[OF i this] show ?thesis .
    qed
  qed
qed

lemma EnsureManifestsCreated_refresh_failure:
  assumes run: "EnsureManifestsCreated e ctx manifestDir restConfig options w = Some (r, wl, lg)"
    and f: "GetRESTMapperCall (Some e') \<in> set lg"
  shows "r = Some e' \<and> last lg = GetRESTMapperCall (Some e')"
proof (cases "NewForConfig e restConfig")
  case (Inl a)
  with run f show ?thesis by (simp add: EnsureManifestsCreated_def)
next
  case client: (Inr client)
  show ?thesis
  proof (cases "NewDiscoveryClientForConfig e restConfig")
    case (Inl a)
    with run f client show ?thesis by (simp add: EnsureManifestsCreated_def)
  next
    case dc: (Inr dc)
    obtain loaded lerr where l: "load e manifestDir options = (loaded, lerr)"
      by (cases "load e manifestDir options")
    show ?thesis
    proof (cases lerr)
      case (Some a)
      with run f client dc l show ?thesis by (simp add: EnsureManifestsCreated_def)
    next
      case None
      obtain res w1 where g: "getRESTMapper e dc w = (res, w1)"
        by (cases "getRESTMapper e dc w")
      show ?thesis
      proof (cases res)
        case (Inl a)
        with run client dc l None g
        have "r = Some a" and "lg = [GetRESTMapperCall (Some a)]"
          by (auto simp: EnsureManifestsCreated_def)
        with f show ?thesis by simp
      next
        case (Inr m)
        let ?st0 = "\<lparr>cur_manifests = loaded, cur_mapper = Some m, lastCreateError = None,
                      cur_world = w1, log = [GetRESTMapperCall None]\<rparr>"
        from load_wf[of e manifestDir options] l have "wf_gomap loaded" by simp
        then have inv: "poll_inv ?st0" by (simp add: poll_inv_def)
        from client dc l None g Inr
        have eq: "EnsureManifestsCreated e ctx manifestDir restConfig options w
                = (case PollImmediateUntil ctx (conditionFunc e client dc) ?st0 of
                     None \<Rightarrow> None
                   | Some (err, st) \<Rightarrow>
                       (case lastCreateError st of
                          Some lastErr \<Rightarrow> Some (Some lastErr, cur_world st, log st)
                        | None \<Rightarrow> Some (err, cur_world st, log st)))"
          by (simp add: EnsureManifestsCreated_def)
        from run[unfolded eq] obtain r0 st'
          where p: "PollImmediateUntil ctx (conditionFunc e client dc) ?st0 = Some (r0, st')"
          by (cases "PollImmediateUntil ctx (conditionFunc e client dc) ?st0") auto
        from run[unfolded eq p]
        have res: "(case lastCreateError st' of
                       Some lastErr \<Rightarrow> Some (Some lastErr, cur_world st', log st')
                     | None \<Rightarrow> Some (r0, cur_world st', log st')) = Some (r, wl, lg)"
          by simp
        from res have lg: "lg = log st'" by (cases "lastCreateError st'") auto
        from poll_refresh_failure_last[OF inv p f[unfolded lg]]
        have "r0 = Some e'" and "lastCreateError st' = None"
          and "last (log st') = GetRESTMapperCall (Some e')" by simp_all
        with res lg show ?thesis by simp
      qed
    qed
  qed
qed

text \<open>
  The log of a call keeps \<^const>\<open>rebuilds_follow\<close>: a round appends its calls, and a
  discovery request after them when the reload flag is set.
\<close>

lemma rebuilds_follow_round:
  assumes "rebuilds_follow lg" and "\<not> signals_stale cs"
  shows "rebuilds_follow (lg @ [ApplyCalls cs])"
  unfolding rebuilds_follow_def
proof (intro allI impI)
  fix i cs'
  assume a: "i < length (lg @ [ApplyCalls cs]) \<and> (lg @ [ApplyCalls cs]) ! i = ApplyCalls cs'
             \<and> signals_stale cs'"
  show "Suc i < length (lg @ [ApplyCalls cs])
        \<and> (\<exists>d. (lg @ [ApplyCalls cs]) ! Suc i = GetRESTMapperCall d)"
  proof (cases "i < length lg")
    case True
    with a have "lg ! i = ApplyCalls cs'" by (simp add: nth_append)
    with assms(1) True a have s: "Suc i < length lg" and "\<exists>d. lg ! Suc i = GetRESTMapperCall d"
      unfolding rebuilds_follow_def by blast+
    then show ?thesis by (simp add: nth_append)
  next
    case False
    with a have "i = length lg" by simp
    with a have "cs' = cs" by simp
    with a assms(2) show ?thesis by simp
  qed
qed

lemma rebuilds_follow_rebuild:
  assumes "rebuilds_follow lg"
  shows "rebuilds_follow (lg @ [ApplyCalls cs, GetRESTMapperCall d])"
  unfolding rebuilds_follow_def
proof (intro allI impI)
  let ?lg = "lg @ [ApplyCalls cs, GetRESTMapperCall d]"
  fix i cs'
  assume a: "i < length ?lg \<and> ?lg ! i = ApplyCalls cs' \<and> signals_stale cs'"
  show "Suc i < length ?lg \<and> (\<exists>d'. ?lg ! Suc i = GetRESTMapperCall d')"
  proof (cases "i < length lg")
    case True
    with a have "lg ! i = ApplyCalls cs'" by (simp add: nth_append)
    with assms(1) True a have s: "Suc i < length lg" and "\<exists>d. lg ! Suc i = GetRESTMapperCall d"
      unfolding rebuilds_follow_def by blast+
    then show ?thesis by (simp add: nth_append)
  next
    case False
    with a have "i = length lg \<or> i = Suc (length lg)" by auto
    then show ?thesis
    proof
      assume "i = length lg"
      then show ?thesis by (simp add: nth_append)
    next
      assume "i = Suc (length lg)"
      with a show ?thesis by (simp add: nth_append)
    qed
  qed
qed

lemma rebuilds_follow_start:
  "rebuilds_follow [GetRESTMapperCall d]"
  unfolding rebuilds_follow_def
proof (intro allI impI)
  fix i cs
  assume a: "i < length [GetRESTMapperCall d] \<and> [GetRESTMapperCall d] ! i = ApplyCalls cs
             \<and> signals_stale cs"
  then have "i = 0" by simp
  with a show "Suc i < length [GetRESTMapperCall d]
               \<and> (\<exists>d'. [GetRESTMapperCall d] ! Suc i = GetRESTMapperCall d')"
    by simp
qed

lemma conditionFunc_log:
  assumes inv: "poll_inv st" and c: "conditionFunc e client dc st = Some (res, st')"
  shows "\<exists>cs. (log st' = log st @ [ApplyCalls cs] \<and> \<not> signals_stale cs)
            \<or> (\<exists>d. log st' = log st @ [ApplyCalls cs, GetRESTMapperCall d])"
proof -
  from inv obtain f where wf: "wf_gomap (cur_manifests st)" and f: "cur_mapper st = Some f"
    by (auto simp: poll_inv_def)
  from create_run_total[OF wf, of client f "cur_world st"] obtain sc
    where run: "create_run (cur_manifests st) client (Some f) (cur_world st) = Some sc" by blast
  let ?cerr = "formatErrors (Quote e) (errs sc)"
  have cr: "create (Quote e) (cur_manifests st) client (cur_mapper st) (cur_world st)
              = Some (?cerr, reloadDiscovery sc, manifests sc, world sc, calls sc)"
    by (simp add: create_def run f)
  have stale: "signals_stale (calls sc) \<longleftrightarrow> reloadDiscovery sc"
    unfolding signals_stale_def using create_run_global(8)[OF run] by simp
  show ?thesis
  proof (cases "reloadDiscovery sc")
    case True
    with cr have cr': "create (Quote e) (cur_manifests st) client (cur_mapper st) (cur_world st)
              = Some (?cerr, True, manifests sc, world sc, calls sc)" by simp
    from create_refresh_error[OF wf cr'] obtain createErr where ce: "?cerr = Some createErr"
      by blast
    obtain r w'' where g: "getRESTMapper e dc (world sc) = (r, w'')"
      by (cases "getRESTMapper e dc (world sc)")
    show ?thesis
    proof (cases r)
      case (Inl err')
      from conditionFunc_refresh_failed[OF cr'[unfolded ce] g[unfolded Inl]] c
      have "log st' = log st @ [ApplyCalls (calls sc), GetRESTMapperCall (Some err')]" by auto
      then show ?thesis by blast
    next
      case (Inr m)
      from conditionFunc_refreshed[OF cr'[unfolded ce] g[unfolded Inr]] c
      have "log st' = log st @ [ApplyCalls (calls sc), GetRESTMapperCall None]" by auto
      then show ?thesis by blast
    qed
  next
    case False
    with cr have cr': "create (Quote e) (cur_manifests st) client (cur_mapper st) (cur_world st)
              = Some (?cerr, False, manifests sc, world sc, calls sc)" by simp
    have "log st' = log st @ [ApplyCalls (calls sc)]"
    proof (cases ?cerr)
      case None
      from conditionFunc_done[OF cr'[unfolded None], of dc] c show ?thesis by auto
    next
      case (Some createErr)
      from conditionFunc_retry[OF cr'[unfolded Some], of dc] c show ?thesis by auto
    qed
    with False stale show ?thesis by blast
  qed
qed

lemma conditionFunc_rebuilds_follow:
  assumes inv: "poll_inv st" and c: "conditionFunc e client dc st = Some (res, st')"
    and r: "rebuilds_follow (log st)"
  shows "rebuilds_follow (log st')"
  using conditionFunc_log[OF inv c] rebuilds_follow_round[OF r] rebuilds_follow_rebuild[OF r]
  by metis

lemma poll_rebuilds_follow:
  assumes inv: "poll_inv st" and r: "rebuilds_follow (log st)"
    and p: "PollImmediateUntil n (conditionFunc e client dc) st = Some (res, st')"
  shows "rebuilds_follow (log st')"
  using inv r p
proof (induction n arbitrary: st)
  case 0
  from "0.prems"(3) obtain d err s1 where c: "conditionFunc e client dc st = Some ((d, err), s1)"
    by (cases "conditionFunc e client dc st") (auto simp: PollImmediateUntil_panic)
  from "0.prems"(3) c have "st' = s1"
    by (subst (asm) PollImmediateUntil.simps) (auto split: option.splits if_splits prod.splits)
  with conditionFunc_rebuilds_follow[OF "0.prems"(1) c "0.prems"(2)] show ?case by simp
next
  case (Suc n)
  from Suc.prems(3) obtain d err s1 where c: "conditionFunc e client dc st = Some ((d, err), s1)"
    by (cases "conditionFunc e client dc st") (auto simp: PollImmediateUntil_panic)
  note r1 = conditionFunc_rebuilds_follow[OF Suc.prems(1) c Suc.prems(2)]
  show ?case
  proof (cases "err = None \<and> \<not> d")
    case True
    with conditionFunc_step[OF Suc.prems(1) c] have i: "poll_inv s1" by simp
    from c True have "conditionFunc e client dc st = Some ((False, None), s1)" by simp
    from PollImmediateUntil_next[where condition="conditionFunc e client dc" and s=st, OF this]
      Suc.prems(3)
    have "PollImmediateUntil n (conditionFunc e client dc) s1 = Some (res, st')" by simp
    from Suc.IH[OF i r1 this] show ?thesis .
  next
    case False
    with Suc.prems(3) c have "st' = s1"
      by (subst (asm) PollImmediateUntil.simps) (auto split: option.splits if_splits prod.splits)
    with r1 show ?thesis by simp
  qed
qed

lemma EnsureManifestsCreated_rebuilds_follow:
  assumes run: "EnsureManifestsCreated e ctx manifestDir restConfig options w = Some (r, wl, lg)"
  shows "rebuilds_follow lg"
proof (cases "NewForConfig e restConfig")
  case (Inl a)
  with run have "lg = []" by (auto simp: EnsureManifestsCreated_def)
  then show ?thesis by (simp add: rebuilds_follow_def)
next
  case client: (Inr client)
  show ?thesis
  proof (cases "NewDiscoveryClientForConfig e restConfig")
    case (Inl a)
    with run client have "lg = []" by (auto simp: EnsureManifestsCreated_def)
    then show ?thesis by (simp add: rebuilds_follow_def)
  next
    case dc: (Inr dc)
    obtain loaded lerr where l: "load e manifestDir options = (loaded, lerr)"
      by (cases "load e manifestDir options")
    show ?thesis
    proof (cases lerr)
      case (Some a)
      with run client dc l have "lg = []" by (auto simp: EnsureManifestsCreated_def)
      then show ?thesis by (simp add: rebuilds_follow_def)
    next
      case None
      obtain res w1 where g: "getRESTMapper e dc w = (res, w1)"
        by (cases "getRESTMapper e dc w")
      show ?thesis
      proof (cases res)
        case (Inl a)
        with run client dc l None g have "lg = [GetRESTMapperCall (Some a)]"
          by (auto simp: EnsureManifestsCreated_def)
        then show ?thesis by (simp add: rebuilds_follow_start)
      next
        case (Inr m)
        let ?st0 = "\<lparr>cur_manifests = loaded, cur_mapper = Some m, lastCreateError = None,
                      cur_world = w1, log = [GetRESTMapperCall None]\<rparr>"
        from load_wf[of e manifestDir options] l have "wf_gomap loaded" by simp
        then have inv: "poll_inv ?st0" by (simp add: poll_inv_def)
        have r0: "rebuilds_follow (log ?st0)" by (simp add: rebuilds_follow_start)
        from client dc l None g Inr
        have eq: "EnsureManifestsCreated e ctx manifestDir restConfig options w
                = (case PollImmediateUntil ctx (conditionFunc e client dc) ?st0 of
                     None \<Rightarrow> None
                   | Some (err, st) \<Rightarrow>
                       (case lastCreateError st of
                          Some lastErr \<Rightarrow> Some (Some lastErr, cur_world st, log st)
                        | None \<Rightarrow> Some (err, cur_world st, log st)))"
          by (simp add: EnsureManifestsCreated_def)
        from run[unfolded eq] obtain r0' st'
          where p: "PollImmediateUntil ctx (conditionFunc e client dc) ?st0 = Some (r0', st')"
          by (cases "PollImmediateUntil ctx (conditionFunc e client dc) ?st0") auto
        from run[unfolded eq p] have lg: "lg = log st'"
          by (cases "lastCreateError st'") auto
        from poll_rebuilds_follow[OF inv r0 p] lg show ?thesis by simp
      qed
    qed
  qed
qed

text \<open>
  The driver does not panic: the mapper is nil only after the polling has ended.
\<close>

lemma conditionFunc_total:
  assumes "poll_inv st"
  shows "\<exists>res st'. conditionFunc e client dc st = Some (res, st')"
proof -
  from assms obtain f where wf: "wf_gomap (cur_manifests st)" and f: "cur_mapper st = Some f"
    by (auto simp: poll_inv_def)
  from create_run_total[OF wf, of client f "cur_world st"] obtain sc
    where "create_run (cur_manifests st) client (Some f) (cur_world st) = Some sc" by blast
  then have "create (Quote e) (cur_manifests st) client (cur_mapper st) (cur_world st)
              = Some (formatErrors (Quote e) (errs sc), reloadDiscovery sc, manifests sc,
                      world sc, calls sc)"
    by (simp add: create_def f)
  then show ?thesis
    by (auto simp: conditionFunc_def Let_def split: option.splits prod.splits sum.splits)
qed

lemma PollImmediateUntil_total:
  assumes "poll_inv st"
  shows "\<exists>r st'. PollImmediateUntil n (conditionFunc e client dc) st = Some (r, st')"
  using assms
proof (induction n arbitrary: st)
  case 0
  from conditionFunc_total[OF "0.prems", of e client dc] obtain d err s1
    where c: "conditionFunc e client dc st = Some ((d, err), s1)" by auto
  then show ?case
    by (subst PollImmediateUntil.simps) (auto split: option.splits nat.splits)
next
  case (Suc n)
  from conditionFunc_total[OF Suc.prems, of e client dc] obtain d err s1
    where c: "conditionFunc e client dc st = Some ((d, err), s1)" by auto
  show ?case
  proof (cases "err = None \<and> \<not> d")
    case True
    with conditionFunc_step[OF Suc.prems c] have "poll_inv s1" by simp
    from Suc.IH[OF this] obtain r st'
      where "PollImmediateUntil n (conditionFunc e client dc) s1 = Some (r, st')" by blast
    moreover from c True have "conditionFunc e client dc st = Some ((False, None), s1)" by simp
    ultimately show ?thesis
      using PollImmediateUntil_next[where condition="conditionFunc e client dc" and s=st]
      by simp
  next
    case False
    with c show ?thesis
      by (subst PollImmediateUntil.simps) (auto split: option.splits nat.splits)
  qed
qed

lemma EnsureManifestsCreated_total:
  "\<exists>r. EnsureManifestsCreated e ctx manifestDir restConfig options w = Some r"
proof -
  have "\<exists>r st'. PollImmediateUntil ctx (conditionFunc e client dc)
                  \<lparr>cur_manifests = fst (load e manifestDir options), cur_mapper = Some m,
                   lastCreateError = None, cur_world = w1, log = [GetRESTMapperCall None]\<rparr>
                = Some (r, st')" for client dc m w1
    by (rule PollImmediateUntil_total) (simp add: poll_inv_def load_wf)
  then show ?thesis
    unfolding EnsureManifestsCreated_def
    by (auto split: sum.splits prod.splits option.splits) (metis fst_conv option.distinct(1))+
qed

section \<open>The code on the example platform\<close>

text \<open>
  The rounds and calls below are evaluated with the equations of the definitions.
\<close>

lemma testManifests_wf: "wf_gomap testManifests"
  by code_simp

lemma testManifests_run:
  "create quote_plain testManifests fake_client (Some testMapper) existingObjects
   = Some (Some testError, True, testPending, testObjects, testCalls)"
  by code_simp

lemma createdManifests_wf: "wf_gomap createdManifests"
  by code_simp

lemma createdManifests_run:
  "create quote_plain createdManifests fake_client (Some fullMapper) []
     = Some (None, False, [], createdObjects, createdCalls)"
  by code_simp

lemma createdManifests_rerun:
  "create quote_plain createdManifests fake_client (Some fullMapper) createdObjects
     = Some (None, False, [], createdObjects, rerunCalls)"
  by code_simp

lemma fake_client_keeps:
  "set objs \<subseteq> set w \<Longrightarrow> set objs \<subseteq> set (snd (fake_client w r ns obj))"
  by (auto simp: fake_client_def)

lemma fake_client_present:
  "(r, ns, Name obj) \<in> set w \<Longrightarrow> IsAlreadyExists (fst (fake_client w r ns obj))"
  by (simp add: fake_client_def)

lemma createdManifests_present:
  assumes "map_of createdManifests p = Some obj" and "resolve fullMapper obj = Inr m"
    and "set createdObjects \<subseteq> set w"
  shows "IsAlreadyExists (fst (fake_client w (MappingResource m) (request_namespace m obj) obj))"
proof -
  from assms(1) consider "obj = testConfigMap" | "obj = testNamespace"
    by (auto simp: createdManifests_def split: if_splits)
  then show ?thesis
  proof cases
    case 1
    have "resolve fullMapper testConfigMap
            = Inr \<lparr>MappingResource = GroupVersionResource [] ''v1'' ''configmaps'',
                   Scope = RESTScopeNameNamespace\<rparr>"
      by code_simp
    with assms(2) 1
    have m: "m = \<lparr>MappingResource = GroupVersionResource [] ''v1'' ''configmaps'',
                   Scope = RESTScopeNameNamespace\<rparr>" by simp
    have "(GroupVersionResource [] ''v1'' ''configmaps'', Some ''openshift-kube-apiserver'',
           ''aggregator-client-ca'') \<in> set createdObjects"
      by (simp add: createdObjects_def)
    with assms(3) show ?thesis unfolding m 1
      by (intro fake_client_present) (auto simp: testConfigMap_def)
  next
    case 2
    have "resolve fullMapper testNamespace
            = Inr \<lparr>MappingResource = GroupVersionResource [] ''v1'' ''namespaces'',
                   Scope = RESTScopeNameRoot\<rparr>"
      by code_simp
    with assms(2) 2
    have m: "m = \<lparr>MappingResource = GroupVersionResource [] ''v1'' ''namespaces'',
                   Scope = RESTScopeNameRoot\<rparr>" by simp
    have "(GroupVersionResource [] ''v1'' ''namespaces'', None,
           ''openshift-kube-apiserver'') \<in> set createdObjects"
      by (simp add: createdObjects_def)
    with assms(3) show ?thesis unfolding m 2
      by (intro fake_client_present) (auto simp: testNamespace_def)
  qed
qed

lemma testEnv_clients:
  "NewForConfig testEnv testConfig = Inr fake_client"
  "NewDiscoveryClientForConfig testEnv testConfig = Inr testDiscovery"
  by (simp_all add: testEnv_def)

lemma broken_load:
  "load testEnv ''broken'' testOptions = ([(''00_ns.yaml'', testNamespace)], Some brokenError)"
  by code_simp

lemma stale_round:
  "create (Quote testEnv) (cur_manifests (pollStart staleManifests)) fake_client
     (cur_mapper (pollStart staleManifests)) (cur_world (pollStart staleManifests))
   = Some (Some staleError, True, staleManifests, [], staleCalls)"
  by code_simp

lemma stale_discovery:
  "getRESTMapper testEnv testDiscovery [] = (Inr testMapper, [])"
  by (simp add: getRESTMapper_def testEnv_def testDiscovery_def testMapper_def)

lemma refused_round:
  "create (Quote testEnv) (cur_manifests (pollStart refusedManifests)) fake_client
     (cur_mapper (pollStart refusedManifests)) (cur_world (pollStart refusedManifests))
   = Some (Some refusedError, True, [(''01_config.yaml'', testOperatorConfig)],
           namespaceObjects, refusedCalls)"
  by code_simp

lemma refused_discovery:
  "getRESTMapper testEnv testDiscovery namespaceObjects
     = (Inl ''discovery: connection refused'', namespaceObjects)"
  by (simp add: getRESTMapper_def testDiscovery_def namespaceObjects_def)

lemma refused_condition:
  "conditionFunc testEnv fake_client testDiscovery (pollStart refusedManifests)
     = Some ((False, Some ''discovery: connection refused''), refusedEnd)"
  unfolding refusedEnd_def
  by (rule conditionFunc_refresh_failed[OF refused_round refused_discovery])

lemma refused_poll:
  "PollImmediateUntil 5 (conditionFunc testEnv fake_client testDiscovery)
     (pollStart refusedManifests)
     = Some (Some ''discovery: connection refused'', refusedEnd)"
  by (rule PollImmediateUntil_error[where condition="conditionFunc testEnv fake_client testDiscovery"
        and s="pollStart refusedManifests", OF refused_condition])

lemma refused_call:
  "EnsureManifestsCreated testEnv 5 ''testdata'' testConfig testOptions []
     = Some (Some ''discovery: connection refused'', namespaceObjects, refusedLog)"
  by code_simp

section \<open>What the apply step guarantees\<close>

text \<open>
  C1. The apply step only shrinks the pending set. It returns for every pending set; the
  entries it leaves are entries of the input and their number does not grow; a manifest is
  gone exactly when its create request was answered with success or with "already
  exists"; a manifest whose type resolution or whose creation failed is still pending.
  So the pending set of the retry driver does not grow in a round, nor over the rounds of
  a whole polling.
\<close>

theorem create_only_shrinks_pending:
  "(wf_gomap ms \<longrightarrow>
      (\<exists>err refresh ms' w' cs.
           create q ms client (Some f) w = Some (err, refresh, ms', w', cs)
         \<and> set ms' \<subseteq> set ms \<and> wf_gomap ms' \<and> length ms' \<le> length ms
         \<and> (\<forall>p\<in>key_set ms. p \<notin> key_set ms' \<longleftrightarrow>
               (\<exists>ns e. CreateCall p ns e \<in> set cs \<and> (e = None \<or> IsAlreadyExists e)))
         \<and> (\<forall>p e. RESTMappingCall p (Inl e) \<in> set cs \<longrightarrow> p \<in> key_set ms')
         \<and> (\<forall>p ns e. CreateCall p ns (Some e) \<in> set cs \<and> \<not> IsAlreadyExists (Some e)
               \<longrightarrow> p \<in> key_set ms')))
   \<and> (conditionFunc e client dc st = Some (res, st') \<longrightarrow>
        set (cur_manifests st') \<subseteq> set (cur_manifests st)
      \<and> length (cur_manifests st') \<le> length (cur_manifests st))
   \<and> (PollImmediateUntil n (conditionFunc e client dc) st = Some (r, stn) \<longrightarrow>
        set (cur_manifests stn) \<subseteq> set (cur_manifests st)
      \<and> length (cur_manifests stn) \<le> length (cur_manifests st))"
proof -
  have A: "\<exists>err refresh ms' w' cs.
           create q ms client (Some f) w = Some (err, refresh, ms', w', cs)
         \<and> set ms' \<subseteq> set ms \<and> wf_gomap ms' \<and> length ms' \<le> length ms
         \<and> (\<forall>p\<in>key_set ms. p \<notin> key_set ms' \<longleftrightarrow>
               (\<exists>ns e. CreateCall p ns e \<in> set cs \<and> (e = None \<or> IsAlreadyExists e)))
         \<and> (\<forall>p e. RESTMappingCall p (Inl e) \<in> set cs \<longrightarrow> p \<in> key_set ms')
         \<and> (\<forall>p ns e. CreateCall p ns (Some e) \<in> set cs \<and> \<not> IsAlreadyExists (Some e)
               \<longrightarrow> p \<in> key_set ms')"
    if wf: "wf_gomap ms"
  proof -
    from create_run_total[OF wf, of client f w]
    obtain sc where run: "create_run ms client (Some f) w = Some sc"
      by blast
    have c: "create q ms client (Some f) w
               = Some (formatErrors q (errs sc), reloadDiscovery sc, manifests sc, world sc,
                       calls sc)"
      by (simp add: create_def run)
    note g = create_run_global[OF run]
    have 1: "set (manifests sc) \<subseteq> set ms" by (rule g(1))
    have 2: "wf_gomap (manifests sc)" using g(3) wf by simp
    have 3: "length (manifests sc) \<le> length ms" by (rule g(2))
    have 4: "\<forall>p\<in>key_set ms. p \<notin> key_set (manifests sc) \<longleftrightarrow>
               (\<exists>ns e. CreateCall p ns e \<in> set (calls sc) \<and> (e = None \<or> IsAlreadyExists e))"
      using create_run_removed_iff[OF wf run] by blast
    have 5: "\<forall>p e. RESTMappingCall p (Inl e) \<in> set (calls sc) \<longrightarrow> p \<in> key_set (manifests sc)"
      using create_run_unresolved_call[OF wf run] by blast
    have 6: "\<forall>p ns e. CreateCall p ns (Some e) \<in> set (calls sc) \<and> \<not> IsAlreadyExists (Some e)
               \<longrightarrow> p \<in> key_set (manifests sc)"
      using create_run_create_call[OF wf run] by blast
    show ?thesis
      by (intro exI conjI) (rule c 1 2 3 4 5 6)+
  qed
  have B: "set (cur_manifests st') \<subseteq> set (cur_manifests st)
      \<and> length (cur_manifests st') \<le> length (cur_manifests st)"
    if "conditionFunc e client dc st = Some (res, st')"
    using that by (rule conditionFunc_shrinks)
  have C: "set (cur_manifests stn) \<subseteq> set (cur_manifests st)
      \<and> length (cur_manifests stn) \<le> length (cur_manifests st)"
    if "PollImmediateUntil n (conditionFunc e client dc) st = Some (r, stn)"
    using that by (rule PollImmediateUntil_shrinks)
  show ?thesis
    by (intro conjI; rule impI; (rule A | rule B | rule C); assumption)
qed

theorem create_only_shrinks_pending_witness:
  "wf_gomap testManifests
   \<and> (\<exists>err refresh ms' w' cs.
         create quote_plain testManifests fake_client (Some testMapper) existingObjects
           = Some (err, refresh, ms', w', cs)
       \<and> ms' = testPending
       \<and> set ms' \<subseteq> set testManifests \<and> wf_gomap ms' \<and> length ms' \<le> length testManifests
       \<and> (\<forall>p\<in>key_set testManifests. p \<notin> key_set ms' \<longleftrightarrow>
             (\<exists>ns e. CreateCall p ns e \<in> set cs \<and> (e = None \<or> IsAlreadyExists e)))
       \<and> (\<forall>p e. RESTMappingCall p (Inl e) \<in> set cs \<longrightarrow> p \<in> key_set ms')
       \<and> (\<forall>p ns e. CreateCall p ns (Some e) \<in> set cs \<and> \<not> IsAlreadyExists (Some e)
             \<longrightarrow> p \<in> key_set ms'))
   \<and> conditionFunc testEnv fake_client testDiscovery (pollStart refusedManifests)
       = Some ((False, Some ''discovery: connection refused''), refusedEnd)
   \<and> PollImmediateUntil 5 (conditionFunc testEnv fake_client testDiscovery)
        (pollStart refusedManifests)
       = Some (Some ''discovery: connection refused'', refusedEnd)
   \<and> set (cur_manifests refusedEnd) \<subseteq> set (cur_manifests (pollStart refusedManifests))
   \<and> length (cur_manifests refusedEnd) \<le> length (cur_manifests (pollStart refusedManifests))"
proof -
  note inst = create_only_shrinks_pending[where ms=testManifests and q=quote_plain
      and client=fake_client and f=testMapper and w=existingObjects and e=testEnv
      and dc=testDiscovery and st="pollStart refusedManifests"
      and res="(False, Some ''discovery: connection refused'')" and st'=refusedEnd and n=5
      and r="Some ''discovery: connection refused''" and stn=refusedEnd]
  from inst testManifests_wf
  obtain err refresh ms' w' cs where
    c: "create quote_plain testManifests fake_client (Some testMapper) existingObjects
           = Some (err, refresh, ms', w', cs)"
    and props: "set ms' \<subseteq> set testManifests \<and> wf_gomap ms' \<and> length ms' \<le> length testManifests
       \<and> (\<forall>p\<in>key_set testManifests. p \<notin> key_set ms' \<longleftrightarrow>
             (\<exists>ns e. CreateCall p ns e \<in> set cs \<and> (e = None \<or> IsAlreadyExists e)))
       \<and> (\<forall>p e. RESTMappingCall p (Inl e) \<in> set cs \<longrightarrow> p \<in> key_set ms')
       \<and> (\<forall>p ns e. CreateCall p ns (Some e) \<in> set cs \<and> \<not> IsAlreadyExists (Some e)
             \<longrightarrow> p \<in> key_set ms')"
    by blast
  from c have ms': "ms' = testPending"
    unfolding testManifests_run by simp
  from testManifests_wf c ms' props
  have 1: "\<exists>err refresh ms' w' cs.
         create quote_plain testManifests fake_client (Some testMapper) existingObjects
           = Some (err, refresh, ms', w', cs)
       \<and> ms' = testPending
       \<and> set ms' \<subseteq> set testManifests \<and> wf_gomap ms' \<and> length ms' \<le> length testManifests
       \<and> (\<forall>p\<in>key_set testManifests. p \<notin> key_set ms' \<longleftrightarrow>
             (\<exists>ns e. CreateCall p ns e \<in> set cs \<and> (e = None \<or> IsAlreadyExists e)))
       \<and> (\<forall>p e. RESTMappingCall p (Inl e) \<in> set cs \<longrightarrow> p \<in> key_set ms')
       \<and> (\<forall>p ns e. CreateCall p ns (Some e) \<in> set cs \<and> \<not> IsAlreadyExists (Some e)
             \<longrightarrow> p \<in> key_set ms')"
    by blast
  from inst refused_poll
  have 2: "set (cur_manifests refusedEnd) \<subseteq> set (cur_manifests (pollStart refusedManifests))
      \<and> length (cur_manifests refusedEnd) \<le> length (cur_manifests (pollStart refusedManifests))"
    by blast
  from testManifests_wf 1 refused_condition refused_poll 2 show ?thesis
    by (intro conjI) blast+
qed

text \<open>
  C2. A create request that the platform answers with "already exists" counts as a
  success: the manifest leaves the pending set, no failure is recorded under its path, and
  the error returned is the aggregate of a failure map that has no entry for it.
\<close>

theorem create_already_exists_is_success:
  assumes wf: "wf_gomap ms"
    and c: "create q ms client mapper w = Some (err, refresh, ms', w', cs)"
    and call: "CreateCall p ns e \<in> set cs"
    and ae: "IsAlreadyExists e"
  shows "p \<in> key_set ms \<and> p \<notin> key_set ms'
       \<and> (\<exists>st. create_run ms client mapper w = Some st
              \<and> map_of (errs st) p = None
              \<and> p \<notin> set (sort (map fst (errs st)))
              \<and> err = formatErrors q (errs st))"
proof -
  from c obtain st where run: "create_run ms client mapper w = Some st"
    and err: "err = formatErrors q (errs st)" and ms': "ms' = manifests st"
    and cs: "cs = calls st"
    by (auto simp: create_Some)
  from call cs have call': "CreateCall p ns e \<in> set (calls st)" by simp
  from create_run_call_path[OF run call'] have 1: "p \<in> key_set ms" by simp
  from create_run_create_call[OF wf run call'] ae
  have 2: "p \<notin> key_set (manifests st)" and 3: "p \<notin> key_set (errs st)" by simp_all
  from 3 have 4: "map_of (errs st) p = None" by (simp add: keys_map_of)
  from 3 have 5: "p \<notin> set (sort (map fst (errs st)))" by (simp add: key_set_def)
  from 1 2 4 5 run err ms' show ?thesis by blast
qed

theorem create_already_exists_is_success_witness:
  "wf_gomap testManifests
   \<and> create quote_plain testManifests fake_client (Some testMapper) existingObjects
       = Some (Some testError, True, testPending, testObjects, testCalls)
   \<and> CreateCall ''01_cm.yaml'' (Some ''openshift-kube-apiserver'')
        (Some (StatusError StatusReasonAlreadyExists ''aggregator-client-ca already exists''))
        \<in> set testCalls
   \<and> IsAlreadyExists
        (Some (StatusError StatusReasonAlreadyExists ''aggregator-client-ca already exists''))
   \<and> ''01_cm.yaml'' \<in> key_set testManifests \<and> ''01_cm.yaml'' \<notin> key_set testPending
   \<and> (\<exists>st. create_run testManifests fake_client (Some testMapper) existingObjects = Some st
          \<and> map_of (errs st) ''01_cm.yaml'' = None
          \<and> ''01_cm.yaml'' \<notin> set (sort (map fst (errs st)))
          \<and> Some testError = formatErrors quote_plain (errs st))"
proof -
  have call: "CreateCall ''01_cm.yaml'' (Some ''openshift-kube-apiserver'')
        (Some (StatusError StatusReasonAlreadyExists ''aggregator-client-ca already exists''))
        \<in> set testCalls"
    by (simp add: testCalls_def)
  have ae: "IsAlreadyExists
        (Some (StatusError StatusReasonAlreadyExists ''aggregator-client-ca already exists''))"
    by simp
  from create_already_exists_is_success[OF testManifests_wf testManifests_run call ae]
  show ?thesis using testManifests_wf testManifests_run call ae by blast
qed

text \<open>
  C3. A manifest whose kind the mapper cannot resolve: the failure is recorded under its
  path and makes the returned error non-nil, the reload flag is set, the manifest stays in
  the pending set, no create request is made for it, and the loop goes on, so that every
  pending manifest has its kind looked up in the round.
\<close>

theorem create_unresolved_kind:
  assumes wf: "wf_gomap ms"
    and c: "create q ms client (Some f) w = Some (err, refresh, ms', w', cs)"
    and obj: "map_of ms p = Some obj"
    and unres: "resolve f obj = Inl e"
  shows "refresh \<and> err \<noteq> None \<and> map_of ms' p = Some obj
       \<and> calls_for p cs = [RESTMappingCall p (Inl e)]
       \<and> (\<forall>ns e'. CreateCall p ns e' \<notin> set cs)
       \<and> (\<exists>st. create_run ms client (Some f) w = Some st
              \<and> map_of (errs st) p = Some (''unable to get REST mapping: '' @ e)
              \<and> err = formatErrors q (errs st))
       \<and> (\<forall>p'\<in>key_set ms. \<exists>r. RESTMappingCall p' r \<in> set cs)"
proof -
  from c obtain st where run: "create_run ms client (Some f) w = Some st"
    and err: "err = formatErrors q (errs st)" and ms': "ms' = manifests st"
    and cs: "cs = calls st" and refresh: "refresh = reloadDiscovery st"
    by (auto simp: create_Some)
  from wf run obj
  have facts: "reloadDiscovery st \<and> map_of (manifests st) p = Some obj
       \<and> calls_for p (calls st) = [RESTMappingCall p (Inl e)]
       \<and> map_of (errs st) p = Some (''unable to get REST mapping: '' @ e)"
  proof (cases rule: create_run_at)
    case (unresolved f' err')
    from unresolved(1,2) unres have "err' = e" by simp
    with unresolved show ?thesis by simp
  next
    case (removed f' mappings err' wa wb)
    with unres show ?thesis by simp
  next
    case (failed f' mappings e' wa wb)
    with unres show ?thesis by simp
  qed
  have nocreate: "\<forall>ns e'. CreateCall p ns e' \<notin> set (calls st)"
  proof (intro allI notI)
    fix ns e' assume "CreateCall p ns e' \<in> set (calls st)"
    then have "CreateCall p ns e' \<in> set (calls_for p (calls st))" by (simp add: in_calls_for)
    with facts show False by simp
  qed
  from facts have "errs st \<noteq> []" by auto
  then have nonnil: "formatErrors q (errs st) \<noteq> None" by (simp add: formatErrors_None)
  have all: "\<forall>p'\<in>key_set ms. \<exists>r. RESTMappingCall p' r \<in> set (calls st)"
  proof
    fix p' assume "p' \<in> key_set ms"
    then obtain obj' where obj': "map_of ms p' = Some obj'" by (auto simp: keys_map_of)
    from create_run_calls_for[OF wf run obj']
    have "RESTMappingCall p' (resolve f obj') \<in> set (calls_for p' (calls st))" by auto
    then show "\<exists>r. RESTMappingCall p' r \<in> set (calls st)" by (auto simp: in_calls_for)
  qed
  from facts nocreate nonnil all run show ?thesis
    unfolding err ms' cs refresh by blast
qed

theorem create_unresolved_kind_witness:
  "wf_gomap testManifests
   \<and> create quote_plain testManifests fake_client (Some testMapper) existingObjects
       = Some (Some testError, True, testPending, testObjects, testCalls)
   \<and> map_of testManifests ''02_config.yaml'' = Some testOperatorConfig
   \<and> resolve testMapper testOperatorConfig = Inl ''no matches for kind KubeAPIServerOperatorConfig''
   \<and> map_of testPending ''02_config.yaml'' = Some testOperatorConfig
   \<and> calls_for ''02_config.yaml'' testCalls
       = [RESTMappingCall ''02_config.yaml'' (Inl ''no matches for kind KubeAPIServerOperatorConfig'')]
   \<and> (\<forall>ns e'. CreateCall ''02_config.yaml'' ns e' \<notin> set testCalls)
   \<and> (\<exists>r. RESTMappingCall ''03_secret.yaml'' r \<in> set testCalls)"
proof -
  have m: "map_of testManifests ''02_config.yaml'' = Some testOperatorConfig"
    by code_simp
  have r: "resolve testMapper testOperatorConfig
             = Inl ''no matches for kind KubeAPIServerOperatorConfig''"
    by code_simp
  have k: "''03_secret.yaml'' \<in> key_set testManifests"
    by code_simp
  from create_unresolved_kind[OF testManifests_wf testManifests_run m r]
  show ?thesis using testManifests_wf testManifests_run m r k by blast
qed

text \<open>
  C4. The manifests are attempted in ascending order of their paths: the paths of the calls
  made, with repetitions merged, are the sorted keys of the pending set; a call for a
  smaller path is made before every call for a larger one; and for one manifest the kind
  is looked up before the create request is made.
\<close>

theorem create_in_path_order:
  assumes wf: "wf_gomap ms"
    and c: "create q ms client (Some f) w = Some (err, refresh, ms', w', cs)"
  shows "remdups_adj (map call_path cs) = sort (map fst ms)
       \<and> sorted (map call_path cs)
       \<and> (\<forall>i j. i < length cs \<and> j < length cs \<and> call_path (cs ! i) < call_path (cs ! j)
             \<longrightarrow> i < j)
       \<and> (\<forall>p obj. map_of ms p = Some obj \<longrightarrow>
             calls_for p cs = [RESTMappingCall p (resolve f obj)]
           \<or> (\<exists>ns e. calls_for p cs = [RESTMappingCall p (resolve f obj), CreateCall p ns e]))"
proof -
  from c obtain st where run: "create_run ms client (Some f) w = Some st"
    and cs: "cs = calls st"
    by (auto simp: create_Some)
  have 1: "remdups_adj (map call_path cs) = sort (map fst ms)"
    using create_run_global(7)[OF run] wf cs by simp
  have 2: "sorted (map call_path cs)"
    using create_run_global(6)[OF run] cs by simp
  have 3: "\<forall>i j. i < length cs \<and> j < length cs \<and> call_path (cs ! i) < call_path (cs ! j)
             \<longrightarrow> i < j"
  proof (intro allI impI)
    fix i j
    assume a: "i < length cs \<and> j < length cs \<and> call_path (cs ! i) < call_path (cs ! j)"
    then have "map call_path cs ! i < map call_path cs ! j" by simp
    with a 2 show "i < j"
      using sorted_nth_less_index[of "map call_path cs" i j] by simp
  qed
  have 4: "\<forall>p obj. map_of ms p = Some obj \<longrightarrow>
             calls_for p cs = [RESTMappingCall p (resolve f obj)]
           \<or> (\<exists>ns e. calls_for p cs = [RESTMappingCall p (resolve f obj), CreateCall p ns e])"
    using create_run_calls_for[OF wf run] cs by blast
  from 1 2 3 4 show ?thesis by blast
qed

theorem create_in_path_order_witness:
  "wf_gomap testManifests
   \<and> create quote_plain testManifests fake_client (Some testMapper) existingObjects
       = Some (Some testError, True, testPending, testObjects, testCalls)
   \<and> remdups_adj (map call_path testCalls)
       = [''00_ns.yaml'', ''01_cm.yaml'', ''02_config.yaml'', ''03_secret.yaml'']
   \<and> sorted (map call_path testCalls)"
proof -
  have s: "sort (map fst testManifests)
             = [''00_ns.yaml'', ''01_cm.yaml'', ''02_config.yaml'', ''03_secret.yaml'']"
    by code_simp
  from create_in_path_order[OF testManifests_wf testManifests_run] s
  show ?thesis using testManifests_wf testManifests_run by simp
qed

text \<open>
  C9. The reload flag is set exactly when the kind of at least one pending manifest could
  not be resolved in the round, whatever the answers of the platform to the create
  requests were; on an empty pending set the apply step returns no error and no flag.
\<close>

theorem create_reload_iff_unresolved:
  assumes wf: "wf_gomap ms"
    and c: "create q ms client (Some f) w = Some (err, refresh, ms', w', cs)"
  shows "(refresh \<longleftrightarrow> (\<exists>p obj e. map_of ms p = Some obj \<and> resolve f obj = Inl e))
       \<and> (refresh \<longleftrightarrow> (\<exists>p e. RESTMappingCall p (Inl e) \<in> set cs))
       \<and> ((\<forall>p obj. map_of ms p = Some obj \<longrightarrow> (\<exists>m. resolve f obj = Inr m)) \<longrightarrow> \<not> refresh)
       \<and> create q [] client mapper w = Some (None, False, [], w, [])"
proof -
  from c obtain st where run: "create_run ms client (Some f) w = Some st"
    and cs: "cs = calls st" and refresh: "refresh = reloadDiscovery st"
    by (auto simp: create_Some)
  have 1: "refresh \<longleftrightarrow> (\<exists>p obj e. map_of ms p = Some obj \<and> resolve f obj = Inl e)"
    unfolding refresh by (rule create_run_reload_iff[OF wf run])
  have 2: "refresh \<longleftrightarrow> (\<exists>p e. RESTMappingCall p (Inl e) \<in> set cs)"
    unfolding refresh cs by (rule create_run_global(8)[OF run])
  have 3: "(\<forall>p obj. map_of ms p = Some obj \<longrightarrow> (\<exists>m. resolve f obj = Inr m)) \<longrightarrow> \<not> refresh"
    using 1 by fastforce
  have 4: "create q [] client mapper w = Some (None, False, [], w, [])"
    by (simp add: create_def create_run_def formatErrors_def)
  from 1 2 3 4 show ?thesis by blast
qed

theorem create_reload_iff_unresolved_witness:
  "wf_gomap testManifests
   \<and> create quote_plain testManifests fake_client (Some testMapper) existingObjects
       = Some (Some testError, True, testPending, testObjects, testCalls)
   \<and> map_of testManifests ''02_config.yaml'' = Some testOperatorConfig
   \<and> resolve testMapper testOperatorConfig = Inl ''no matches for kind KubeAPIServerOperatorConfig''
   \<and> (True \<longleftrightarrow> (\<exists>p obj e. map_of testManifests p = Some obj \<and> resolve testMapper obj = Inl e))
   \<and> (True \<longleftrightarrow> (\<exists>p e. RESTMappingCall p (Inl e) \<in> set testCalls))"
proof -
  have m: "map_of testManifests ''02_config.yaml'' = Some testOperatorConfig"
    by code_simp
  have r: "resolve testMapper testOperatorConfig
             = Inl ''no matches for kind KubeAPIServerOperatorConfig''"
    by code_simp
  from create_reload_iff_unresolved[OF testManifests_wf testManifests_run]
  show ?thesis using testManifests_wf testManifests_run m r by blast
qed

text \<open>
  C7. A second run of the apply step on the same pending set, on a platform that holds
  every resource the first run created or found existing (each create request for one of
  them is answered "already exists", in every state the platform goes through): each of
  those manifests is answered "already exists", leaves the pending set and has no failure
  recorded; and if the first run returned no error, the second returns none and empties
  the pending set.
\<close>

theorem create_rerun_idempotent:
  assumes wf: "wf_gomap ms"
    and first: "create q ms client (Some f) w1 = Some (err1, refresh1, ms1, w1', cs1)"
    and closed: "\<forall>w r ns obj. w \<in> W \<longrightarrow> snd (client w r ns obj) \<in> W"
    and start: "w2 \<in> W"
    and present: "\<forall>p obj m. map_of ms p = Some obj \<and> p \<notin> key_set ms1 \<and> resolve f obj = Inr m
                    \<longrightarrow> (\<forall>w\<in>W. IsAlreadyExists
                           (fst (client w (MappingResource m) (request_namespace m obj) obj)))"
    and second: "create q ms client (Some f) w2 = Some (err2, refresh2, ms2, w2', cs2)"
  shows "(\<forall>p\<in>key_set ms. p \<notin> key_set ms1 \<longrightarrow>
            p \<notin> key_set ms2
          \<and> (\<exists>ns e. CreateCall p ns e \<in> set cs2 \<and> IsAlreadyExists e)
          \<and> (\<exists>st. create_run ms client (Some f) w2 = Some st \<and> map_of (errs st) p = None
                 \<and> err2 = formatErrors q (errs st)))
       \<and> (err1 = None \<longrightarrow> err2 = None \<and> ms2 = [])"
proof -
  from first obtain st1 where run1: "create_run ms client (Some f) w1 = Some st1"
    and err1: "err1 = formatErrors q (errs st1)" and ms1: "ms1 = manifests st1"
    by (auto simp: create_Some)
  from second obtain st2 where run2: "create_run ms client (Some f) w2 = Some st2"
    and err2: "err2 = formatErrors q (errs st2)" and ms2: "ms2 = manifests st2"
    and cs2: "cs2 = calls st2"
    by (auto simp: create_Some)
  from closed have closed': "\<And>w r ns obj. w \<in> W \<Longrightarrow> snd (client w r ns obj) \<in> W" by blast
  have each: "p \<notin> key_set (manifests st2) \<and> map_of (errs st2) p = None
       \<and> (\<exists>ns e. CreateCall p ns e \<in> set (calls st2) \<and> IsAlreadyExists e)"
    if p: "p \<in> key_set ms" and gone: "p \<notin> key_set ms1" for p
  proof -
    from p obtain obj where obj: "map_of ms p = Some obj" by (auto simp: keys_map_of)
    from create_run_removed_resolved[OF wf run1 obj] gone ms1
    obtain m where m: "resolve f obj = Inr m" by blast
    from present obj gone m
    have "\<forall>w\<in>W. IsAlreadyExists
            (fst (client w (MappingResource m) (request_namespace m obj) obj))"
      by blast
    from create_run_present[OF wf run2 closed' start obj m this] show ?thesis .
  qed
  have 1: "\<forall>p\<in>key_set ms. p \<notin> key_set ms1 \<longrightarrow>
            p \<notin> key_set ms2
          \<and> (\<exists>ns e. CreateCall p ns e \<in> set cs2 \<and> IsAlreadyExists e)
          \<and> (\<exists>st. create_run ms client (Some f) w2 = Some st \<and> map_of (errs st) p = None
                 \<and> err2 = formatErrors q (errs st))"
    using each run2 err2 unfolding ms2 cs2 by blast
  have 2: "err1 = None \<longrightarrow> err2 = None \<and> ms2 = []"
  proof
    assume "err1 = None"
    then have "errs st1 = []" using err1 by (simp add: formatErrors_None)
    from create_run_no_failures[OF wf run1 this] have "ms1 = []" using ms1 by simp
    then have allgone: "\<And>p. p \<notin> key_set ms1" by (simp add: key_set_def)
    have "key_set (errs st2) = {}"
    proof (rule ccontr)
      assume "key_set (errs st2) \<noteq> {}"
      then obtain p where pe: "p \<in> key_set (errs st2)" by blast
      with create_run_global(9)[OF run2] have "p \<in> key_set ms" by blast
      from each[OF this allgone] pe show False by (simp add: keys_map_of)
    qed
    then have "errs st2 = []" by (simp add: key_set_def)
    moreover from create_run_no_failures[OF wf run2 this] have "manifests st2 = []" .
    ultimately show "err2 = None \<and> ms2 = []" using err2 ms2 by (simp add: formatErrors_None)
  qed
  from 1 2 show ?thesis by blast
qed

theorem create_rerun_idempotent_witness:
  "wf_gomap createdManifests
   \<and> create quote_plain createdManifests fake_client (Some fullMapper) []
       = Some (None, False, [], createdObjects, createdCalls)
   \<and> createdObjects \<in> {w. set createdObjects \<subseteq> set w}
   \<and> create quote_plain createdManifests fake_client (Some fullMapper) createdObjects
       = Some (None, False, [], createdObjects, rerunCalls)
   \<and> (\<exists>ns e. CreateCall ''00_ns.yaml'' ns e \<in> set rerunCalls \<and> IsAlreadyExists e)
   \<and> (\<exists>ns e. CreateCall ''01_cm.yaml'' ns e \<in> set rerunCalls \<and> IsAlreadyExists e)"
proof -
  let ?W = "{w. set createdObjects \<subseteq> set w}"
  have closed: "\<forall>w r ns obj. w \<in> ?W \<longrightarrow> snd (fake_client w r ns obj) \<in> ?W"
    using fake_client_keeps by blast
  have start: "createdObjects \<in> ?W" by simp
  have present: "\<forall>p obj m. map_of createdManifests p = Some obj \<and> p \<notin> key_set []
          \<and> resolve fullMapper obj = Inr m
          \<longrightarrow> (\<forall>w\<in>?W. IsAlreadyExists
                 (fst (fake_client w (MappingResource m) (request_namespace m obj) obj)))"
    using createdManifests_present by blast
  from create_rerun_idempotent[OF createdManifests_wf createdManifests_run closed start
      present createdManifests_rerun]
  have "\<forall>p\<in>key_set createdManifests.
          \<exists>ns e. CreateCall p ns e \<in> set rerunCalls \<and> IsAlreadyExists e"
    by (simp add: key_set_def)
  moreover have "key_set createdManifests = {''00_ns.yaml'', ''01_cm.yaml''}"
    by (auto simp: key_set_def createdManifests_def)
  ultimately have "(\<exists>ns e. CreateCall ''00_ns.yaml'' ns e \<in> set rerunCalls \<and> IsAlreadyExists e)
       \<and> (\<exists>ns e. CreateCall ''01_cm.yaml'' ns e \<in> set rerunCalls \<and> IsAlreadyExists e)"
    by blast
  with createdManifests_wf createdManifests_run start createdManifests_rerun
  show ?thesis by blast
qed

section \<open>What error aggregation guarantees\<close>

text \<open>
  C8. The aggregated error does not depend on the order in which the failure map hands
  out its entries: two maps with the same entries give the same message. The message lists
  the paths in ascending order, each with its reason, and the result is nil exactly for
  the empty map.
\<close>

theorem formatErrors_deterministic:
  assumes wf1: "wf_gomap e1" and wf2: "wf_gomap e2" and same: "map_of e1 = map_of e2"
  shows "formatErrors q e1 = formatErrors q e2
       \<and> (formatErrors q e1 = None \<longleftrightarrow> e1 = [])
       \<and> (e1 \<noteq> [] \<longrightarrow>
            (\<exists>ks. sorted ks \<and> distinct ks \<and> set ks = key_set e1
                \<and> (\<forall>k\<in>set ks. map_of e1 k = Some (errorAt e1 k))
                \<and> formatErrors q e1
                    = Some (''failed to create some manifests:'' @ newline
                            @ Join (map (\<lambda>k. q k @ '': '' @ errorAt e1 k) ks) newline
                            @ newline)))"
proof -
  have s: "sort (map fst e1) = sort (map fst e2)" by (rule sort_keys_eq[OF wf1 wf2 same])
  have a: "errorAt e1 = errorAt e2" using same by (auto simp: errorAt_def)
  from same have "key_set e1 = key_set e2" by (simp add: keys_eq_dom)
  then have e: "e1 = [] \<longleftrightarrow> e2 = []" by (auto simp: key_set_def)
  have 1: "formatErrors q e1 = formatErrors q e2"
    using s a e by (simp add: formatErrors_def Let_def)
  have 2: "formatErrors q e1 = None \<longleftrightarrow> e1 = []" by (rule formatErrors_None)
  have 3: "e1 \<noteq> [] \<longrightarrow>
            (\<exists>ks. sorted ks \<and> distinct ks \<and> set ks = key_set e1
                \<and> (\<forall>k\<in>set ks. map_of e1 k = Some (errorAt e1 k))
                \<and> formatErrors q e1
                    = Some (''failed to create some manifests:'' @ newline
                            @ Join (map (\<lambda>k. q k @ '': '' @ errorAt e1 k) ks) newline
                            @ newline))"
  proof
    assume ne: "e1 \<noteq> []"
    let ?ks = "sort (map fst e1)"
    have "sorted ?ks" by simp
    moreover have "distinct ?ks" using wf1 by (simp add: wf_gomap_def)
    moreover have k: "set ?ks = key_set e1" by (simp add: key_set_def)
    moreover have "\<forall>k\<in>set ?ks. map_of e1 k = Some (errorAt e1 k)"
      unfolding k using errorAt_present by blast
    moreover have "formatErrors q e1
                    = Some (''failed to create some manifests:'' @ newline
                            @ Join (map (\<lambda>k. q k @ '': '' @ errorAt e1 k) ?ks) newline
                            @ newline)"
      using ne by (simp add: formatErrors_def Let_def)
    ultimately show "\<exists>ks. sorted ks \<and> distinct ks \<and> set ks = key_set e1
                \<and> (\<forall>k\<in>set ks. map_of e1 k = Some (errorAt e1 k))
                \<and> formatErrors q e1
                    = Some (''failed to create some manifests:'' @ newline
                            @ Join (map (\<lambda>k. q k @ '': '' @ errorAt e1 k) ks) newline
                            @ newline)"
      by blast
  qed
  from 1 2 3 show ?thesis by blast
qed

theorem formatErrors_deterministic_witness:
  "wf_gomap testFailures \<and> wf_gomap (rev testFailures)
   \<and> map_of testFailures = map_of (rev testFailures)
   \<and> formatErrors quote_plain testFailures = Some testError
   \<and> formatErrors quote_plain (rev testFailures) = Some testError
   \<and> formatErrors quote_plain testFailures = formatErrors quote_plain (rev testFailures)"
proof -
  have wf1: "wf_gomap testFailures" by code_simp
  have wf2: "wf_gomap (rev testFailures)" by code_simp
  have same: "map_of testFailures = map_of (rev testFailures)"
    by (rule ext) (simp add: testFailures_def)
  have v: "formatErrors quote_plain testFailures = Some testError" by code_simp
  from formatErrors_deterministic[OF wf1 wf2 same, of quote_plain] v
  show ?thesis using wf1 wf2 same by simp
qed

section \<open>What the retry driver guarantees\<close>

text \<open>
  C5. The error of a round is recorded as the last error only when the round did not set
  the reload flag. In a round that sets the flag and whose discovery request succeeds,
  the closure's \<^verbatim>\<open>err\<close> has been overwritten with the nil error of \<^verbatim>\<open>getRESTMapper\<close>
  before it is assigned to \<^verbatim>\<open>lastCreateError\<close>: with a manifest whose kind discovery
  never lists, every round returns the aggregated error, and at the deadline the
  caller gets the timeout error of the polling instead.
\<close>

theorem stale_round_error_is_lost:
  "create quote_plain staleManifests fake_client (Some testMapper) []
     = Some (Some staleError, True, staleManifests, [], staleCalls)
   \<and> EnsureManifestsCreated testEnv 1 ''stale'' testConfig testOptions []
     = Some (Some ErrWaitTimeout, [], staleLog)
   \<and> staleError \<noteq> ErrWaitTimeout"
  by code_simp

text \<open>
  C6. A round in which the apply step sets the reload flag is followed by a request to
  discovery on the platform as that round left it. When the request succeeds the closure
  reports "not done" with the new mapper in place for the next round; when it fails the
  polling ends in that round with the error of the request, whatever time is left. A
  call of \<^verbatim>\<open>EnsureManifestsCreated\<close> in which a discovery request fails ends with that
  request and returns its error; and in the events of any call, a round with a failed
  lookup is followed at once by a discovery request.
\<close>

theorem stale_mapping_is_rebuilt:
  "(wf_gomap (cur_manifests st)
      \<and> create (Quote e) (cur_manifests st) client (cur_mapper st) (cur_world st)
          = Some (err, True, ms', w', cs)
      \<and> getRESTMapper e dc w' = (Inr m, w'')
      \<longrightarrow> conditionFunc e client dc st
            = Some ((False, None),
                    st\<lparr>cur_manifests := ms', cur_mapper := Some m, lastCreateError := None,
                       cur_world := w'',
                       log := log st @ [ApplyCalls cs, GetRESTMapperCall None]\<rparr>))
   \<and> (wf_gomap (cur_manifests st)
      \<and> create (Quote e) (cur_manifests st) client (cur_mapper st) (cur_world st)
          = Some (err, True, ms', w', cs)
      \<and> getRESTMapper e dc w' = (Inl err', w'')
      \<longrightarrow> PollImmediateUntil n (conditionFunc e client dc) st
            = Some (Some err',
                    st\<lparr>cur_manifests := ms', cur_mapper := None, cur_world := w'',
                       log := log st @ [ApplyCalls cs, GetRESTMapperCall (Some err')]\<rparr>))
   \<and> (EnsureManifestsCreated e ctx manifestDir restConfig options w = Some (r, wl, lg)
      \<and> GetRESTMapperCall (Some e') \<in> set lg
      \<longrightarrow> r = Some e' \<and> last lg = GetRESTMapperCall (Some e'))
   \<and> (EnsureManifestsCreated e ctx manifestDir restConfig options w = Some (r, wl, lg)
      \<and> i < length lg \<and> lg ! i = ApplyCalls rnd
      \<and> (\<exists>p x. RESTMappingCall p (Inl x) \<in> set rnd)
      \<longrightarrow> Suc i < length lg \<and> (\<exists>d. lg ! Suc i = GetRESTMapperCall d))"
proof -
  have A: "conditionFunc e client dc st
            = Some ((False, None),
                    st\<lparr>cur_manifests := ms', cur_mapper := Some m, lastCreateError := None,
                       cur_world := w'',
                       log := log st @ [ApplyCalls cs, GetRESTMapperCall None]\<rparr>)"
    if a: "wf_gomap (cur_manifests st)
      \<and> create (Quote e) (cur_manifests st) client (cur_mapper st) (cur_world st)
          = Some (err, True, ms', w', cs)
      \<and> getRESTMapper e dc w' = (Inr m, w'')"
  proof -
    from a have wf: "wf_gomap (cur_manifests st)"
      and c: "create (Quote e) (cur_manifests st) client (cur_mapper st) (cur_world st)
                = Some (err, True, ms', w', cs)"
      and g: "getRESTMapper e dc w' = (Inr m, w'')"
      by blast+
    from create_refresh_error[OF wf c] obtain createErr where "err = Some createErr" by blast
    from conditionFunc_refreshed[OF c[unfolded this] g] show ?thesis .
  qed
  have B: "PollImmediateUntil n (conditionFunc e client dc) st
            = Some (Some err',
                    st\<lparr>cur_manifests := ms', cur_mapper := None, cur_world := w'',
                       log := log st @ [ApplyCalls cs, GetRESTMapperCall (Some err')]\<rparr>)"
    if a: "wf_gomap (cur_manifests st)
      \<and> create (Quote e) (cur_manifests st) client (cur_mapper st) (cur_world st)
          = Some (err, True, ms', w', cs)
      \<and> getRESTMapper e dc w' = (Inl err', w'')"
  proof -
    from a have wf: "wf_gomap (cur_manifests st)"
      and c: "create (Quote e) (cur_manifests st) client (cur_mapper st) (cur_world st)
                = Some (err, True, ms', w', cs)"
      and g: "getRESTMapper e dc w' = (Inl err', w'')"
      by blast+
    from create_refresh_error[OF wf c] obtain createErr where "err = Some createErr" by blast
    from conditionFunc_refresh_failed[OF c[unfolded this] g]
    have "conditionFunc e client dc st
           = Some ((False, Some err'),
                   st\<lparr>cur_manifests := ms', cur_mapper := None, cur_world := w'',
                      log := log st @ [ApplyCalls cs, GetRESTMapperCall (Some err')]\<rparr>)" .
    from PollImmediateUntil_error[where condition="conditionFunc e client dc" and s=st, OF this]
    show ?thesis .
  qed
  have C: "r = Some e' \<and> last lg = GetRESTMapperCall (Some e')"
    if a: "EnsureManifestsCreated e ctx manifestDir restConfig options w = Some (r, wl, lg)
      \<and> GetRESTMapperCall (Some e') \<in> set lg"
  proof -
    from a have 1: "EnsureManifestsCreated e ctx manifestDir restConfig options w = Some (r, wl, lg)"
      and 2: "GetRESTMapperCall (Some e') \<in> set lg" by blast+
    from EnsureManifestsCreated_refresh_failure[OF 1 2] show ?thesis .
  qed
  have D: "Suc i < length lg \<and> (\<exists>d. lg ! Suc i = GetRESTMapperCall d)"
    if a: "EnsureManifestsCreated e ctx manifestDir restConfig options w = Some (r, wl, lg)
      \<and> i < length lg \<and> lg ! i = ApplyCalls rnd
      \<and> (\<exists>p x. RESTMappingCall p (Inl x) \<in> set rnd)"
  proof -
    from a have 1: "EnsureManifestsCreated e ctx manifestDir restConfig options w = Some (r, wl, lg)"
      and 2: "i < length lg \<and> lg ! i = ApplyCalls rnd \<and> signals_stale rnd"
      unfolding signals_stale_def by blast+
    from EnsureManifestsCreated_rebuilds_follow[OF 1] 2 show ?thesis
      unfolding rebuilds_follow_def by blast
  qed
  show ?thesis
    by (intro conjI; rule impI; (rule A | rule B | rule C | rule D); assumption)
qed

theorem stale_mapping_is_rebuilt_witness:
  "wf_gomap (cur_manifests (pollStart staleManifests))
   \<and> wf_gomap (cur_manifests (pollStart refusedManifests))
   \<and> create (Quote testEnv) (cur_manifests (pollStart staleManifests)) fake_client
        (cur_mapper (pollStart staleManifests)) (cur_world (pollStart staleManifests))
       = Some (Some staleError, True, staleManifests, [], staleCalls)
   \<and> getRESTMapper testEnv testDiscovery [] = (Inr testMapper, [])
   \<and> conditionFunc testEnv fake_client testDiscovery (pollStart staleManifests)
       = Some ((False, None),
               (pollStart staleManifests)
                 \<lparr>cur_manifests := staleManifests, cur_mapper := Some testMapper,
                  lastCreateError := None, cur_world := [],
                  log := log (pollStart staleManifests)
                         @ [ApplyCalls staleCalls, GetRESTMapperCall None]\<rparr>)
   \<and> create (Quote testEnv) (cur_manifests (pollStart refusedManifests)) fake_client
        (cur_mapper (pollStart refusedManifests)) (cur_world (pollStart refusedManifests))
       = Some (Some refusedError, True, [(''01_config.yaml'', testOperatorConfig)],
               namespaceObjects, refusedCalls)
   \<and> getRESTMapper testEnv testDiscovery namespaceObjects
       = (Inl ''discovery: connection refused'', namespaceObjects)
   \<and> PollImmediateUntil 5 (conditionFunc testEnv fake_client testDiscovery)
        (pollStart refusedManifests)
       = Some (Some ''discovery: connection refused'',
               (pollStart refusedManifests)
                 \<lparr>cur_manifests := [(''01_config.yaml'', testOperatorConfig)],
                  cur_mapper := None, cur_world := namespaceObjects,
                  log := log (pollStart refusedManifests)
                         @ [ApplyCalls refusedCalls,
                            GetRESTMapperCall (Some ''discovery: connection refused'')]\<rparr>)
   \<and> EnsureManifestsCreated testEnv 5 ''testdata'' testConfig testOptions []
       = Some (Some ''discovery: connection refused'', namespaceObjects, refusedLog)
   \<and> GetRESTMapperCall (Some ''discovery: connection refused'') \<in> set refusedLog
   \<and> last refusedLog = GetRESTMapperCall (Some ''discovery: connection refused'')
   \<and> refusedLog ! 1 = ApplyCalls refusedCalls
   \<and> RESTMappingCall ''01_config.yaml'' (Inl ''no matches for kind KubeAPIServerOperatorConfig'')
        \<in> set refusedCalls
   \<and> (\<exists>d. refusedLog ! Suc 1 = GetRESTMapperCall d)"
proof -
  have wf1: "wf_gomap (cur_manifests (pollStart staleManifests))" by code_simp
  have wf2: "wf_gomap (cur_manifests (pollStart refusedManifests))" by code_simp
  have mem: "GetRESTMapperCall (Some ''discovery: connection refused'') \<in> set refusedLog"
    by (simp add: refusedLog_def)
  note thm1 = stale_mapping_is_rebuilt[where st="pollStart staleManifests" and e=testEnv
      and client=fake_client and err="Some staleError" and ms'=staleManifests and w'="[]"
      and cs=staleCalls and dc=testDiscovery and m=testMapper and w''="[]"]
  note thm2 = stale_mapping_is_rebuilt[where st="pollStart refusedManifests" and e=testEnv
      and client=fake_client and err="Some refusedError"
      and ms'="[(''01_config.yaml'', testOperatorConfig)]" and w'=namespaceObjects
      and cs=refusedCalls and dc=testDiscovery and err'="''discovery: connection refused''"
      and w''=namespaceObjects and n=5 and ctx=5 and manifestDir="''testdata''"
      and restConfig=testConfig and options=testOptions and w="[]"
      and r="Some ''discovery: connection refused''" and wl=namespaceObjects and lg=refusedLog
      and e'="''discovery: connection refused''" and i=1 and rnd=refusedCalls]
  from thm1 wf1 stale_round stale_discovery
  have a: "conditionFunc testEnv fake_client testDiscovery (pollStart staleManifests)
       = Some ((False, None),
               (pollStart staleManifests)
                 \<lparr>cur_manifests := staleManifests, cur_mapper := Some testMapper,
                  lastCreateError := None, cur_world := [],
                  log := log (pollStart staleManifests)
                         @ [ApplyCalls staleCalls, GetRESTMapperCall None]\<rparr>)"
    by blast
  from thm2 wf2 refused_round refused_discovery
  have b: "PollImmediateUntil 5 (conditionFunc testEnv fake_client testDiscovery)
        (pollStart refusedManifests)
       = Some (Some ''discovery: connection refused'',
               (pollStart refusedManifests)
                 \<lparr>cur_manifests := [(''01_config.yaml'', testOperatorConfig)],
                  cur_mapper := None, cur_world := namespaceObjects,
                  log := log (pollStart refusedManifests)
                         @ [ApplyCalls refusedCalls,
                            GetRESTMapperCall (Some ''discovery: connection refused'')]\<rparr>)"
    by blast
  from thm2 refused_call mem
  have c: "last refusedLog = GetRESTMapperCall (Some ''discovery: connection refused'')"
    by blast
  have i: "1 < length refusedLog" and r: "refusedLog ! 1 = ApplyCalls refusedCalls"
    and m: "RESTMappingCall ''01_config.yaml''
              (Inl ''no matches for kind KubeAPIServerOperatorConfig'') \<in> set refusedCalls"
    by (simp_all add: refusedLog_def refusedCalls_def)
  from thm2 refused_call i r m
  have d: "\<exists>d. refusedLog ! Suc 1 = GetRESTMapperCall d"
    by blast
  from wf1 wf2 stale_round stale_discovery a refused_round refused_discovery b refused_call mem c
    r m d
  show ?thesis by (intro conjI)
qed

text \<open>
  C10. When \<^verbatim>\<open>load\<close> returns an error, \<^verbatim>\<open>EnsureManifestsCreated\<close> returns that error at
  once: the platform is as it was and no discovery or create request has been made,
  whatever manifests \<^verbatim>\<open>load\<close> returned with the error. This is so in particular when a
  single file of the directory fails to decode, since \<^verbatim>\<open>load\<close> then returns an error
  beside the manifests that decoded.
\<close>

theorem load_error_is_returned:
  assumes client: "NewForConfig e restConfig = Inr client"
    and dc: "NewDiscoveryClientForConfig e restConfig = Inr dc"
  shows "(\<forall>loaded err. load e manifestDir options = (loaded, Some err) \<longrightarrow>
            EnsureManifestsCreated e ctx manifestDir restConfig options w = Some (Some err, w, []))
       \<and> (\<forall>files p b msg.
            \<not> StatIsNotExist e manifestDir
            \<and> LoadFilesRecursively e manifestDir (Filters options) = Inr files
            \<and> (p, b) \<in> set files \<and> decodeManifest e p b = Inl msg \<longrightarrow>
            (\<exists>err. snd (load e manifestDir options) = Some err
               \<and> EnsureManifestsCreated e ctx manifestDir restConfig options w
                   = Some (Some err, w, [])))"
proof -
  have 1: "EnsureManifestsCreated e ctx manifestDir restConfig options w = Some (Some err, w, [])"
    if "load e manifestDir options = (loaded, Some err)" for loaded err
    using that client dc by (simp add: EnsureManifestsCreated_def)
  have 2: "\<exists>err. snd (load e manifestDir options) = Some err
               \<and> EnsureManifestsCreated e ctx manifestDir restConfig options w
                   = Some (Some err, w, [])"
    if "\<not> StatIsNotExist e manifestDir
        \<and> LoadFilesRecursively e manifestDir (Filters options) = Inr files
        \<and> (p, b) \<in> set files \<and> decodeManifest e p b = Inl msg" for files p b msg
  proof -
    from that load_decode_failure[of e manifestDir options files p b msg]
    obtain err where err: "snd (load e manifestDir options) = Some err" by auto
    then have "load e manifestDir options = (fst (load e manifestDir options), Some err)"
      by (metis prod.collapse)
    from 1[OF this] err show ?thesis by blast
  qed
  from 1 2 show ?thesis by blast
qed

theorem load_error_is_returned_witness:
  "NewForConfig testEnv testConfig = Inr fake_client
   \<and> NewDiscoveryClientForConfig testEnv testConfig = Inr testDiscovery
   \<and> load testEnv ''broken'' testOptions = ([(''00_ns.yaml'', testNamespace)], Some brokenError)
   \<and> EnsureManifestsCreated testEnv 1 ''broken'' testConfig testOptions [] = Some (Some brokenError, [], [])"
  using load_error_is_returned[OF testEnv_clients, of "''broken''" testOptions 1 "[]"]
    testEnv_clients broken_load
  by blast

end
